theory Spec2Isabelle
  imports Main "HOL-Library.Sublist"
begin

text \<open>
  The path completion provider of \<open>src/features/PathAutocompleteProvider.ts\<close>: the class
  \<open>PathAutocomplete\<close> with its methods \<open>provideCompletionItems\<close>, \<open>getInsertText\<close>,
  \<open>getFolderItems\<close>, \<open>getFolderPath\<close>, \<open>getUserPath\<close>, \<open>getNodeModulesPath\<close>,
  \<open>getCurrentDirectory\<close>, \<open>applyMapping\<close>, \<open>isNodePackage\<close>, \<open>shouldProvide\<close> and \<open>filter\<close>. Each
  method is a function of the configuration and of the services it calls; a promise is the
  value it is settled with, an error on the left when it is rejected.
\<close>

section \<open>JavaScript string primitives used by the provider\<close>

text \<open>
  A JavaScript string is modelled as a \<open>string\<close> (a list of characters). The characters
  the provider tests for are all ASCII; they are named here once.
\<close>

definition backslash :: char where "backslash = CHR 0x5C"
definition single_quote :: char where "single_quote = CHR 0x27"
definition double_quote :: char where "double_quote = CHR 0x22"
definition backtick_quote :: char where "backtick_quote = CHR 0x60"
definition tab :: char where "tab = CHR 0x09"
definition dollar :: char where "dollar = CHR 0x24"

text \<open>\<open>s[i]\<close>: the character at index \<open>i\<close>, \<open>undefined\<close> (here \<open>None\<close>) out of range.\<close>

definition index :: "string \<Rightarrow> nat \<Rightarrow> char option" where
  "index s i = (if i < length s then Some (s ! i) else None)"

text \<open>\<open>s.charAt(k)\<close>: a string of one character, the empty string out of range
  (also for a negative \<open>k\<close>, as in \<open>charAt(i-1)\<close> at \<open>i = 0\<close>).\<close>

definition charAt :: "string \<Rightarrow> int \<Rightarrow> string" where
  "charAt s k = (if 0 \<le> k \<and> k < int (length s) then [s ! nat k] else [])"

text \<open>\<open>s.substring(a, b)\<close>: both indices are clamped to \<open>[0, length]\<close> and swapped when
  \<open>a > b\<close>.\<close>

definition substring :: "string \<Rightarrow> int \<Rightarrow> int \<Rightarrow> string" where
  "substring s a b =
     (let n = int (length s);
          a' = min (max a 0) n;
          b' = min (max b 0) n;
          lo = nat (min a' b');
          hi = nat (max a' b')
      in take (hi - lo) (drop lo s))"

text \<open>\<open>s.startsWith(p)\<close>.\<close>

definition startsWith :: "string \<Rightarrow> string \<Rightarrow> bool" where
  "startsWith s p = prefix p s"

text \<open>\<open>s.indexOf(p)\<close>: the least index at which \<open>p\<close> occurs in \<open>s\<close>, \<open>None\<close> for JavaScript's
  \<open>-1\<close>.\<close>

fun indexOf :: "string \<Rightarrow> string \<Rightarrow> nat option" where
  "indexOf [] p = (if p = [] then Some 0 else None)"
| "indexOf (c # cs) p =
     (if prefix p (c # cs) then Some 0 else map_option Suc (indexOf cs p))"

text \<open>\<open>s.includes(p)\<close>; a regular expression that is an alternative of plain words, such as
  \<open>/require|import/\<close>, matches when one of the words is included.\<close>

definition js_includes :: "string \<Rightarrow> string \<Rightarrow> bool" where
  "js_includes s p = (indexOf s p \<noteq> None)"

text \<open>
  \<open>GetSubstitution\<close> of the ECMAScript specification, for a search value that is a string
  (no capture groups): in the replacement text \<open>$$\<close> stands for a dollar sign, \<open>$&\<close> for the
  matched text, \<open>$`\<close> for the text before the match and \<open>$'\<close> for the text after it; every
  other character, and a dollar sign followed by anything else, is copied.
\<close>

fun getSubstitution :: "string \<Rightarrow> string \<Rightarrow> string \<Rightarrow> string \<Rightarrow> string" where
  "getSubstitution matched preceding following [] = []"
| "getSubstitution matched preceding following [c] = [c]"
| "getSubstitution matched preceding following (c # d # r) =
     (if c = dollar \<and> d = dollar then dollar # getSubstitution matched preceding following r
      else if c = dollar \<and> d = CHR ''&'' then matched @ getSubstitution matched preceding following r
      else if c = dollar \<and> d = backtick_quote then preceding @ getSubstitution matched preceding following r
      else if c = dollar \<and> d = single_quote then following @ getSubstitution matched preceding following r
      else c # getSubstitution matched preceding following (d # r))"

text \<open>\<open>s.replace(p, r)\<close> with a string \<open>p\<close>: only the first occurrence of \<open>p\<close> is replaced,
  by the expansion of \<open>r\<close>; \<open>s\<close> is returned as it is when \<open>p\<close> does not occur.\<close>

definition js_replace :: "string \<Rightarrow> string \<Rightarrow> string \<Rightarrow> string" where
  "js_replace s p r =
     (case indexOf s p of
        None \<Rightarrow> s
      | Some i \<Rightarrow>
          (let preceding = take i s; following = drop (i + length p) s
           in preceding @ getSubstitution p preceding following r @ following))"

text \<open>\<open>/^[a-z]/i\<close>: the first character is an ASCII letter (without the \<open>u\<close> flag, ignoring
  case never relates a character outside ASCII to one inside).\<close>

definition ascii_letter :: "char \<Rightarrow> bool" where
  "ascii_letter c = (c \<in> set ''abcdefghijklmnopqrstuvwxyzABCDEFGHIJKLMNOPQRSTUVWXYZ'')"

definition starts_with_letter :: "string \<Rightarrow> bool" where
  "starts_with_letter s = (case s of [] \<Rightarrow> False | c # _ \<Rightarrow> ascii_letter c)"

text \<open>\<open>/^[a-z]:/i\<close>: an ASCII letter followed by a colon.\<close>

definition starts_with_drive :: "string \<Rightarrow> bool" where
  "starts_with_drive s =
     (case s of c # d # _ \<Rightarrow> ascii_letter c \<and> d = CHR '':'' | _ \<Rightarrow> False)"

section \<open>The configuration\<close>

text \<open>
  \<open>PathConfiguration\<close> is not part of the provider's file; the provider only reads the
  fields of \<open>configuration.data\<close>, which are the fields of this record. A path that is not
  configured is the empty string (JavaScript tests it for truth). \<open>pathMappings\<close> and
  \<open>excludedItems\<close> are objects: they are listed with their keys in the order in which
  \<open>Object.keys\<close> enumerates them, each key once.
\<close>

record transformation =
  type :: string
  parameters :: "string list"
  when_fileName :: "string option"

record config =
  homeDirectory :: string
  workspaceRootPath :: string
  workspaceFolderPath :: string
  pathMappings :: "(string \<times> string) list"
  transformations :: "transformation list"
  excludedItems :: "(string \<times> string) list option"
  withExtension :: bool
  triggerOutsideStrings :: bool
  enableFolderTrailingSlash :: bool

section \<open>applyMapping\<close>

text \<open>The body of the \<open>map\<close> callback: the target path of a mapping, with the placeholders
  replaced.\<close>

definition candidatePath :: "config \<Rightarrow> string \<Rightarrow> string" where
  "candidatePath cfg template =
     (let p1 = (if workspaceRootPath cfg \<noteq> []
                then js_replace template ''${workspace}'' (workspaceRootPath cfg)
                else template);
          p2 = (if workspaceFolderPath cfg \<noteq> []
                then js_replace p1 ''${folder}'' (workspaceFolderPath cfg)
                else p1)
      in js_replace p2 ''${home}'' (homeDirectory cfg))"

record mapping_result =
  currentDir :: string
  insertedPath :: string

text \<open>The test of the \<open>some\<close> callback.\<close>

definition mapping_applies :: "string \<Rightarrow> string \<Rightarrow> bool" where
  "mapping_applies fragment key = (startsWith fragment key \<or> key = ''$root'')"

text \<open>\<open>some\<close> stops at the first mapping for which the callback returns true; the callback
  assigns \<open>currentDir\<close> and \<open>insertedPath\<close> there.\<close>

fun some_mapping :: "(string \<times> string) list \<Rightarrow> mapping_result \<Rightarrow> mapping_result" where
  "some_mapping [] r = r"
| "some_mapping ((key, path) # ms) r =
     (if mapping_applies (insertedPath r) key
      then \<lparr>currentDir = path, insertedPath = js_replace (insertedPath r) key []\<rparr>
      else some_mapping ms r)"

definition applyMapping :: "config \<Rightarrow> string \<Rightarrow> mapping_result" where
  "applyMapping cfg fragment =
     some_mapping
       (map (\<lambda>(key, template). (key, candidatePath cfg template)) (pathMappings cfg))
       \<lparr>currentDir = [], insertedPath = fragment\<rparr>"


section \<open>The services the provider calls\<close>

text \<open>
  The provider calls Node's \<open>path\<close> and \<open>fs\<close> modules, JavaScript's regular expressions,
  \<open>minimatch\<close> and the constructor of \<open>FileInfo\<close>. They are not code of the provider: they
  are the fields of a record that every function below takes as its first argument.
  \<^item> \<open>path_parse_dir p\<close> is \<open>path.parse(p).dir\<close>; \<open>path_basename_ext p e\<close> is
    \<open>path.basename(p, e)\<close>.
  \<^item> \<open>fs_readdir\<close> gives the error or the names that the callback of \<open>fs.readdir\<close> receives.
  \<^item> \<open>regexp_valid p\<close> says that \<open>new RegExp(p)\<close> does not throw; \<open>regexp_test p s\<close> that
    \<open>s.match(new RegExp(p))\<close> is not null; \<open>regexp_replace s p r\<close> is
    \<open>s.replace(new RegExp(p), r)\<close>, which replaces the first match only, the expression
    having no \<open>g\<close> flag.
\<close>

datatype error = FsError string | RegExpSyntaxError string

text \<open>Modelled from the spec: the class \<open>FileInfo\<close> (its file is not among the sources): an
  entry has a name, an absolute path and an is-directory flag, and constructing one may
  fail (\<open>None\<close>) when the entry cannot be inspected.\<close>

record FileInfo =
  getName :: string
  getPath :: string
  isDirectory :: bool

record host =
  path_resolve :: "string \<Rightarrow> string"
  path_join :: "string \<Rightarrow> string \<Rightarrow> string"
  path_dirname :: "string \<Rightarrow> string"
  path_parse_dir :: "string \<Rightarrow> string"
  path_basename :: "string \<Rightarrow> string"
  path_basename_ext :: "string \<Rightarrow> string \<Rightarrow> string"
  path_extname :: "string \<Rightarrow> string"
  fs_existsSync :: "string \<Rightarrow> bool"
  fs_lstat_isDirectory :: "string \<Rightarrow> bool"
  fs_readdir :: "string \<Rightarrow> error + string list"
  newFileInfo :: "string \<Rightarrow> FileInfo option"
  regexp_valid :: "string \<Rightarrow> bool"
  regexp_test :: "string \<Rightarrow> string \<Rightarrow> bool"
  regexp_replace :: "string \<Rightarrow> string \<Rightarrow> string \<Rightarrow> string"
  minimatch :: "string \<Rightarrow> string \<Rightarrow> bool"

section \<open>shouldProvide\<close>

record quotes =
  single :: int
  double :: int
  backtick :: int

text \<open>\<open>n += n > 0 ? -1 : 1\<close>.\<close>

definition toggle :: "int \<Rightarrow> int" where
  "toggle n = n + (if n > 0 then - 1 else 1)"

text \<open>The body of the loop, at index \<open>i\<close>.\<close>

definition count_quotes :: "string \<Rightarrow> nat \<Rightarrow> quotes \<Rightarrow> quotes" where
  "count_quotes currentLine i q =
     (let q1 = (if charAt currentLine (int i) = [single_quote]
                   \<and> charAt currentLine (int i - 1) \<noteq> [backslash]
                then q\<lparr>single := toggle (single q)\<rparr> else q);
          q2 = (if charAt currentLine (int i) = [double_quote]
                   \<and> charAt currentLine (int i - 1) \<noteq> [backslash]
                then q1\<lparr>double := toggle (double q1)\<rparr> else q1)
      in (if charAt currentLine (int i) = [backtick_quote]
             \<and> charAt currentLine (int i - 1) \<noteq> [backslash]
          then q2\<lparr>backtick := toggle (backtick q2)\<rparr> else q2))"

definition shouldProvide :: "config \<Rightarrow> string \<Rightarrow> nat \<Rightarrow> bool" where
  "shouldProvide cfg currentLine position =
     (if triggerOutsideStrings cfg then True
      else (let q = fold (count_quotes currentLine) [0 ..< position]
                      \<lparr>single = 0, double = 0, backtick = 0\<rparr>
            in single q \<noteq> 0 \<or> double q \<noteq> 0 \<or> backtick q \<noteq> 0))"

section \<open>getUserPath\<close>

definition is_separator :: "char \<Rightarrow> bool" where
  "is_separator c =
     (c = CHR '' '' \<or> c = tab \<or> c = CHR ''('' \<or> c = CHR ''{'' \<or> c = CHR ''['')"

definition is_quote :: "char \<Rightarrow> bool" where
  "is_quote c = (c = single_quote \<or> c = double_quote \<or> c = backtick_quote)"

text \<open>The loop, from index \<open>i\<close> on, with the current values of \<open>lastQuote\<close> and
  \<open>lastSeparator\<close>; it returns their final values.\<close>

function scan_line :: "string \<Rightarrow> nat \<Rightarrow> nat \<Rightarrow> int \<Rightarrow> int \<Rightarrow> int \<times> int" where
  "scan_line currentLine currentPosition i lastQuote lastSeparator =
     (if i < currentPosition then
        (case index currentLine i of
           None \<Rightarrow> scan_line currentLine currentPosition (i + 1) lastQuote lastSeparator
         | Some c \<Rightarrow>
             if c = backslash
             then scan_line currentLine currentPosition (i + 2) lastQuote lastSeparator
             else if is_separator c
             then scan_line currentLine currentPosition (i + 1) lastQuote (int i)
             else if is_quote c
             then scan_line currentLine currentPosition (i + 1) (int i) lastSeparator
             else scan_line currentLine currentPosition (i + 1) lastQuote lastSeparator)
      else (lastQuote, lastSeparator))"
  by pat_completeness auto
termination
  by (relation "measure (\<lambda>(currentLine, currentPosition, i, lastQuote, lastSeparator).
        currentPosition - i)") auto

definition getUserPath :: "string \<Rightarrow> nat \<Rightarrow> string" where
  "getUserPath currentLine currentPosition =
     (case scan_line currentLine currentPosition 0 (- 1) (- 1) of
        (lastQuote, lastSeparator) \<Rightarrow>
          (let startPosition = (if lastQuote \<noteq> - 1 then lastQuote else lastSeparator)
           in substring currentLine (startPosition + 1) (int currentPosition)))"

section \<open>getNodeModulesPath, getCurrentDirectory, isNodePackage, getFolderPath\<close>

text \<open>The loop runs as long as \<open>path.dirname\<close> changes the directory; whether it ends
  depends on \<open>path.dirname\<close>, so the result is an option: \<open>None\<close> when it never ends.\<close>

partial_function (option) getNodeModulesPath :: "host \<Rightarrow> config \<Rightarrow> string \<Rightarrow> string option"
  where
  "getNodeModulesPath H cfg dir =
     (if dir \<noteq> path_dirname H dir then
        (if fs_existsSync H (path_join H dir ''node_modules'')
         then Some (path_join H dir ''node_modules'')
         else getNodeModulesPath H cfg (path_dirname H dir))
      else Some (path_join H (workspaceFolderPath cfg) ''node_modules''))"

definition getCurrentDirectory :: "host \<Rightarrow> config \<Rightarrow> string \<Rightarrow> string \<Rightarrow> string" where
  "getCurrentDirectory H cfg fileName inserted =
     (let currentDir = (if path_parse_dir H fileName \<noteq> [] then path_parse_dir H fileName
                        else ''/'');
          workspacePath = workspaceFolderPath cfg
      in path_resolve H
           (if startsWith inserted ''/'' \<and> workspacePath \<noteq> [] then workspacePath
            else currentDir))"

definition isNodePackage :: "string \<Rightarrow> string \<Rightarrow> bool" where
  "isNodePackage inserted currentLine =
     (if \<not> (js_includes currentLine ''require'' \<or> js_includes currentLine ''import'')
      then False
      else if \<not> starts_with_letter inserted then False
      else True)"

text \<open>The directory that \<open>getFolderPath\<close> names \<open>currentDir\<close>: the target of the mapping
  that applied, or else (the empty string is false) the default directory.\<close>

definition baseDirectory :: "host \<Rightarrow> config \<Rightarrow> string \<Rightarrow> mapping_result \<Rightarrow> string" where
  "baseDirectory H cfg fileName mappingResult =
     (if currentDir mappingResult \<noteq> [] then currentDir mappingResult
      else getCurrentDirectory H cfg fileName (insertedPath mappingResult))"

definition getFolderPath :: "host \<Rightarrow> config \<Rightarrow> string \<Rightarrow> string \<Rightarrow> nat \<Rightarrow> string option" where
  "getFolderPath H cfg fileName currentLine currentPosition =
     (let userPath = getUserPath currentLine currentPosition;
          mappingResult = applyMapping cfg userPath;
          inserted = insertedPath mappingResult;
          dir = baseDirectory H cfg fileName mappingResult
      in if starts_with_drive inserted then Some (path_resolve H inserted)
         else if startsWith inserted ''~''
           then Some (path_join H (homeDirectory cfg) (substring inserted 1 (int (length inserted))))
         else if isNodePackage inserted currentLine
           then map_option (\<lambda>modules. path_join H modules inserted)
                  (getNodeModulesPath H cfg dir)
         else Some (path_join H dir inserted))"

section \<open>getInsertText\<close>

text \<open>The callback of \<open>transformations.forEach\<close>, as a function from the insertion text
  before the rule to the text after it, or to the error that \<open>new RegExp\<close> throws.
  \<open>fileNameRegex\<close> is false when the rule has no \<open>when.fileName\<close> or an empty one;
  \<open>parameters[0]\<close> is false when it is missing or empty; a missing \<open>parameters[1]\<close> is
  \<open>undefined\<close>, which \<open>replace\<close> turns into the text \<open>undefined\<close>.\<close>

definition apply_transform :: "host \<Rightarrow> FileInfo \<Rightarrow> transformation \<Rightarrow> string \<Rightarrow> error + string"
  where
  "apply_transform H file transform insertText =
     (let fileName = (case when_fileName transform of None \<Rightarrow> [] | Some p \<Rightarrow> p);
          ps = parameters transform
      in if fileName \<noteq> [] \<and> \<not> regexp_valid H fileName then Inl (RegExpSyntaxError fileName)
         else if fileName \<noteq> [] \<and> \<not> regexp_test H fileName (getName file) then Inr insertText
         else if type transform = ''replace'' \<and> ps \<noteq> [] \<and> hd ps \<noteq> [] then
           (if \<not> regexp_valid H (hd ps) then Inl (RegExpSyntaxError (hd ps))
            else Inr (regexp_replace H insertText (hd ps)
                        (if 1 < length ps then ps ! 1 else ''undefined'')))
         else Inr insertText)"

fun apply_transformations ::
  "host \<Rightarrow> FileInfo \<Rightarrow> transformation list \<Rightarrow> string \<Rightarrow> error + string" where
  "apply_transformations H file [] insertText = Inr insertText"
| "apply_transformations H file (transform # rest) insertText =
     (case apply_transform H file transform insertText of
        Inl err \<Rightarrow> Inl err
      | Inr insertText' \<Rightarrow> apply_transformations H file rest insertText')"

definition getInsertText :: "host \<Rightarrow> config \<Rightarrow> FileInfo \<Rightarrow> error + string" where
  "getInsertText H cfg file =
     apply_transformations H file (transformations cfg)
       (if withExtension cfg \<or> isDirectory file then path_basename H (getName file)
        else path_basename_ext H (getName file) (path_extname H (getName file)))"

section \<open>getFolderItems and filter\<close>

text \<open>The promise of \<open>getFolderItems\<close>: rejected with the error of \<open>fs.readdir\<close>, or
  resolved with the entries whose \<open>FileInfo\<close> could be constructed.\<close>

definition getFolderItems :: "host \<Rightarrow> string \<Rightarrow> error + FileInfo list" where
  "getFolderItems H folderPath =
     (case fs_readdir H folderPath of
        Inl err \<Rightarrow> Inl err
      | Inr items \<Rightarrow>
          Inr (List.map_filter (\<lambda>item. newFileInfo H (path_join H folderPath item)) items))"

definition filter_item :: "host \<Rightarrow> config \<Rightarrow> string \<Rightarrow> FileInfo \<Rightarrow> bool" where
  "filter_item H cfg currentFile file =
     (case excludedItems cfg of
        None \<Rightarrow> True
      | Some rules \<Rightarrow>
          \<not> list_ex (\<lambda>(item, rule).
                 minimatch H currentFile rule \<and> minimatch H (getPath file) item) rules)"

section \<open>provideCompletionItems\<close>

record command =
  command_name :: string
  title :: string
  arguments :: "string list"

datatype CompletionItemKind = File

record CompletionItem =
  label :: string
  insertText :: "string option"
  sortText :: "string option"
  command :: "command option"
  kind :: "CompletionItemKind option"

text \<open>\<open>new vs.CompletionItem(label)\<close>.\<close>

definition newCompletionItem :: "string \<Rightarrow> CompletionItem" where
  "newCompletionItem l =
     \<lparr>label = l, insertText = None, sortText = None, command = None, kind = None\<rparr>"

record document =
  fileName :: string
  lineAt :: "nat \<Rightarrow> string"

record position =
  line :: nat
  character :: nat

text \<open>The cancellation token of the caller: whether cancellation has been requested by
  the time the directory has been read.\<close>

record token =
  isCancellationRequested :: bool

text \<open>The callback of \<open>map\<close> that builds the completion of one entry.\<close>

definition completion_of :: "host \<Rightarrow> config \<Rightarrow> FileInfo \<Rightarrow> error + CompletionItem" where
  "completion_of H cfg file =
     (case getInsertText H cfg file of
        Inl err \<Rightarrow> Inl err
      | Inr text \<Rightarrow>
          Inr (if isDirectory file
               then \<lparr>label = getName file @ ''/'', insertText = Some text, sortText = Some ''d'',
                     command = (if enableFolderTrailingSlash cfg
                                then Some \<lparr>command_name = ''default:type'',
                                           title = ''triggerSuggest'', arguments = [''/'']\<rparr>
                                else None),
                     kind = Some File\<rparr>
               else \<lparr>label = getName file, insertText = Some text, sortText = Some ''f'',
                     command = None, kind = Some File\<rparr>))"

fun completions_of :: "host \<Rightarrow> config \<Rightarrow> FileInfo list \<Rightarrow> error + CompletionItem list" where
  "completions_of H cfg [] = Inr []"
| "completions_of H cfg (file # files) =
     (case completion_of H cfg file of
        Inl err \<Rightarrow> Inl err
      | Inr c \<Rightarrow>
          (case completions_of H cfg files of
             Inl err \<Rightarrow> Inl err
           | Inr cs \<Rightarrow> Inr (c # cs)))"

text \<open>
  The outcome of \<open>provideCompletionItems\<close>: \<open>None\<close> when the call never returns (the loop of
  \<open>getNodeModulesPath\<close>), \<open>Some (Inl err)\<close> when the promise it returns is rejected with
  \<open>err\<close>, \<open>Some (Inr items)\<close> when the promise is resolved with \<open>items\<close>. \<open>cfg\<close> is the
  configuration after \<open>configuration.update\<close>.
\<close>

definition provideCompletionItems ::
  "host \<Rightarrow> config \<Rightarrow> document \<Rightarrow> position \<Rightarrow> token \<Rightarrow> (error + CompletionItem list) option"
  where
  "provideCompletionItems H cfg doc pos tok =
     (let currentLine = lineAt doc (line pos) in
      if \<not> shouldProvide cfg currentLine (character pos) then Some (Inr [])
      else
        (case getFolderPath H cfg (fileName doc) currentLine (character pos) of
           None \<Rightarrow> None
         | Some folderPath \<Rightarrow>
             if \<not> fs_existsSync H folderPath \<or> \<not> fs_lstat_isDirectory H folderPath
             then Some (Inr [])
             else
               (case getFolderItems H folderPath of
                  Inl err \<Rightarrow> Some (Inl err)
                | Inr items \<Rightarrow>
                    (case completions_of H cfg (filter (filter_item H cfg (fileName doc)) items) of
                       Inl err \<Rightarrow> Some (Inl err)
                     | Inr result \<Rightarrow> Some (Inr (newCompletionItem ''..'' # result))))))"

section \<open>A host for the examples: POSIX paths\<close>

text \<open>
  The functions of Node's \<open>path.posix\<close> that the provider calls, written after their
  JavaScript: a path is cut at its slashes, the segments \<open>.\<close> and the empty ones are
  dropped and a segment \<open>..\<close> removes the segment before it. The examples and the
  counterexamples below are evaluated on this host.
\<close>

definition slash :: char where "slash = CHR ''/''"

text \<open>The segments between the slashes of a path; \<open>cur\<close> holds the characters of the
  segment being read, the last one first.\<close>

fun split_slash :: "string \<Rightarrow> string \<Rightarrow> string list" where
  "split_slash cur [] = [rev cur]"
| "split_slash cur (c # cs) =
     (if c = slash then rev cur # split_slash [] cs else split_slash (c # cur) cs)"

text \<open>\<open>normalizeString\<close>: \<open>acc\<close> holds the segments kept so far, the last one first.\<close>

fun norm_segments :: "bool \<Rightarrow> string list \<Rightarrow> string list \<Rightarrow> string list" where
  "norm_segments allowAboveRoot acc [] = rev acc"
| "norm_segments allowAboveRoot acc (s # ss) =
     (if s = [] \<or> s = ''.'' then norm_segments allowAboveRoot acc ss
      else if s = ''..'' then
        (case acc of
           [] \<Rightarrow> norm_segments allowAboveRoot (if allowAboveRoot then [''..''] else []) ss
         | a # as \<Rightarrow>
             if a = ''..''
             then norm_segments allowAboveRoot (if allowAboveRoot then ''..'' # acc else acc) ss
             else norm_segments allowAboveRoot as ss)
      else norm_segments allowAboveRoot (s # acc) ss)"

fun join_slash :: "string list \<Rightarrow> string" where
  "join_slash [] = []"
| "join_slash [s] = s"
| "join_slash (s # t # ss) = s @ slash # join_slash (t # ss)"

definition normalizeString :: "bool \<Rightarrow> string \<Rightarrow> string" where
  "normalizeString allowAboveRoot p = join_slash (norm_segments allowAboveRoot [] (split_slash [] p))"

definition isAbsolute :: "string \<Rightarrow> bool" where
  "isAbsolute p = (p \<noteq> [] \<and> hd p = slash)"

definition posix_normalize :: "string \<Rightarrow> string" where
  "posix_normalize p =
     (if p = [] then ''.''
      else (let q = normalizeString (\<not> isAbsolute p) p in
            if q = [] then (if isAbsolute p then ''/'' else if last p = slash then ''./'' else ''.'')
            else (if isAbsolute p then ''/'' else []) @ q @ (if last p = slash then ''/'' else [])))"

definition posix_join :: "string \<Rightarrow> string \<Rightarrow> string" where
  "posix_join a b =
     (let joined = (if a = [] then b else if b = [] then a else a @ slash # b)
      in if joined = [] then ''.'' else posix_normalize joined)"

text \<open>\<open>path.resolve(p)\<close> in the working directory \<open>cwd\<close>, an absolute path.\<close>

definition posix_resolve :: "string \<Rightarrow> string \<Rightarrow> string" where
  "posix_resolve cwd p =
     slash # normalizeString False
       (if isAbsolute p then p else if p = [] then cwd else cwd @ slash # p)"

text \<open>The path without its trailing slashes, and the part of that up to its last slash.\<close>

definition strip_slashes :: "string \<Rightarrow> string" where
  "strip_slashes p = rev (dropWhile (\<lambda>c. c = slash) (rev p))"

definition upto_last_slash :: "string \<Rightarrow> string" where
  "upto_last_slash p = rev (dropWhile (\<lambda>c. c \<noteq> slash) (rev (strip_slashes p)))"

definition posix_dirname :: "string \<Rightarrow> string" where
  "posix_dirname p =
     (if p = [] then ''.''
      else if length (upto_last_slash p) \<le> 1 then (if isAbsolute p then ''/'' else ''.'')
      else if isAbsolute p \<and> length (upto_last_slash p) = 2 then ''//''
      else butlast (upto_last_slash p))"

definition posix_parse_dir :: "string \<Rightarrow> string" where
  "posix_parse_dir p =
     (if p = [] then []
      else if length (upto_last_slash p) \<le> 1 then (if isAbsolute p then ''/'' else [])
      else butlast (upto_last_slash p))"

definition posix_basename :: "string \<Rightarrow> string" where
  "posix_basename p = rev (takeWhile (\<lambda>c. c \<noteq> slash) (rev (strip_slashes p)))"

definition posix_basename_ext :: "string \<Rightarrow> string \<Rightarrow> string" where
  "posix_basename_ext p ext =
     (if ext \<noteq> [] \<and> length ext \<le> length p then
        (if ext = p then []
         else if suffix ext (posix_basename p) \<and> posix_basename p \<noteq> ext
         then take (length (posix_basename p) - length ext) (posix_basename p)
         else posix_basename p)
      else posix_basename p)"

definition posix_extname :: "string \<Rightarrow> string" where
  "posix_extname p =
     (let b = posix_basename p;
          e = rev (takeWhile (\<lambda>c. c \<noteq> CHR ''.'') (rev b))
      in if b = ''..'' \<or> length e = length b \<or> length e + 1 = length b then []
         else drop (length b - length e - 1) b)"

text \<open>
  The host of the examples: POSIX paths in the working directory \<open>cwd\<close>; a file system
  given by the directories that exist, what \<open>readdir\<close> answers and the entries that can be
  inspected; regular expressions that are plain words (a word matches where it occurs);
  and a \<open>minimatch\<close> whose patterns are whole paths.
\<close>

definition posix_host ::
  "string \<Rightarrow> string list \<Rightarrow> (string \<Rightarrow> error + string list) \<Rightarrow> (string \<Rightarrow> FileInfo option) \<Rightarrow> host"
  where
  "posix_host cwd dirs rd info =
     \<lparr>path_resolve = posix_resolve cwd, path_join = posix_join, path_dirname = posix_dirname,
      path_parse_dir = posix_parse_dir, path_basename = posix_basename,
      path_basename_ext = posix_basename_ext, path_extname = posix_extname,
      fs_existsSync = (\<lambda>p. p \<in> set dirs), fs_lstat_isDirectory = (\<lambda>p. p \<in> set dirs),
      fs_readdir = rd, newFileInfo = info,
      regexp_valid = (\<lambda>p. True), regexp_test = (\<lambda>p s. js_includes s p),
      regexp_replace = (\<lambda>s p r. js_replace s p r),
      minimatch = (\<lambda>p pattern. p = pattern)\<rparr>"

section \<open>Notions of the specification\<close>

text \<open>The first occurrence of \<open>p\<close> in \<open>s\<close>: \<open>s\<close> is \<open>a\<close>, then \<open>p\<close>, then \<open>b\<close>, and \<open>p\<close> occurs
  nowhere further to the left.\<close>

definition first_occurrence :: "string \<Rightarrow> string \<Rightarrow> string \<Rightarrow> string \<Rightarrow> bool" where
  "first_occurrence s p a b = (s = a @ p @ b \<and> (\<forall>a' b'. s = a' @ p @ b' \<longrightarrow> length a \<le> length a'))"

text \<open>The character at index \<open>i\<close> is \<open>q\<close>, with no backslash just before it.\<close>

definition unescaped_at :: "string \<Rightarrow> char \<Rightarrow> nat \<Rightarrow> bool" where
  "unescaped_at s q i = (i < length s \<and> s ! i = q \<and> (i = 0 \<or> s ! (i - 1) \<noteq> backslash))"

text \<open>How many such \<open>q\<close> stand at the indices below \<open>n\<close>.\<close>

definition unescaped_before :: "string \<Rightarrow> char \<Rightarrow> nat \<Rightarrow> nat" where
  "unescaped_before s q n = card {i. i < n \<and> unescaped_at s q i}"

text \<open>The three kinds of quote.\<close>

definition quote_kinds :: "char set" where
  "quote_kinds = {single_quote, double_quote, backtick_quote}"

text \<open>The cursor is after an opening \<open>q\<close> at \<open>i\<close> and not after the \<open>q\<close> at \<open>j\<close> that closes it.\<close>

definition inside_pair :: "string \<Rightarrow> char \<Rightarrow> nat \<Rightarrow> bool" where
  "inside_pair s q cursor =
     (\<exists>i j. i < cursor \<and> cursor \<le> j \<and> unescaped_at s q i \<and> unescaped_at s q j
        \<and> even (unescaped_before s q i)
        \<and> (\<forall>k. i < k \<and> k < j \<longrightarrow> \<not> unescaped_at s q k))"

text \<open>Every opening \<open>q\<close> before the cursor is followed by a \<open>q\<close> before the cursor.\<close>

definition closed_before :: "string \<Rightarrow> char \<Rightarrow> nat \<Rightarrow> bool" where
  "closed_before s q cursor =
     (\<forall>i. i < cursor \<and> unescaped_at s q i \<and> even (unescaped_before s q i) \<longrightarrow>
        (\<exists>j. i < j \<and> j < cursor \<and> unescaped_at s q j))"

text \<open>The scan skips index \<open>i\<close>: a backslash that it did not skip stands just before.\<close>

fun skipped :: "string \<Rightarrow> nat \<Rightarrow> bool" where
  "skipped s 0 = False"
| "skipped s (Suc i) = (index s i = Some backslash \<and> \<not> skipped s i)"

text \<open>An unescaped quote stands at index \<open>i\<close>.\<close>

definition quote_at :: "string \<Rightarrow> nat \<Rightarrow> bool" where
  "quote_at s i = (\<not> skipped s i \<and> (\<exists>c. index s i = Some c \<and> is_quote c))"

text \<open>An unescaped separator stands at index \<open>i\<close>.\<close>

definition separator_at :: "string \<Rightarrow> nat \<Rightarrow> bool" where
  "separator_at s i = (\<not> skipped s i \<and> (\<exists>c. index s i = Some c \<and> is_separator c))"

text \<open>\<open>i\<close> is the last index below \<open>n\<close> at which \<open>P\<close> holds.\<close>

definition is_last :: "(nat \<Rightarrow> bool) \<Rightarrow> nat \<Rightarrow> nat \<Rightarrow> bool" where
  "is_last P n i = (i < n \<and> P i \<and> (\<forall>j. i < j \<and> j < n \<longrightarrow> \<not> P j))"

text \<open>The last index from \<open>i\<close> on and below \<open>n\<close> at which \<open>P\<close> holds, \<open>d\<close> if there is none.\<close>

fun last_from :: "(nat \<Rightarrow> bool) \<Rightarrow> nat \<Rightarrow> nat \<Rightarrow> int \<Rightarrow> int" where
  "last_from P i 0 d = d"
| "last_from P i (Suc n) d = (if i \<le> n \<and> P n then int n else last_from P i n d)"

text \<open>The directory \<open>k\<close> parent steps above \<open>d\<close>.\<close>

definition level :: "host \<Rightarrow> string \<Rightarrow> nat \<Rightarrow> string" where
  "level H d k = (path_dirname H ^^ k) d"

text \<open>\<open>n\<close> parent steps above \<open>d\<close>, and not before, the parent step changes nothing.\<close>

definition reaches_root :: "host \<Rightarrow> string \<Rightarrow> nat \<Rightarrow> bool" where
  "reaches_root H d n =
     ((\<forall>k<n. level H d k \<noteq> path_dirname H (level H d k))
      \<and> level H d n = path_dirname H (level H d n))"

text \<open>A \<open>node_modules\<close> entry exists in the directory \<open>k\<close> parent steps above \<open>d\<close>.\<close>

definition modules_at :: "host \<Rightarrow> string \<Rightarrow> nat \<Rightarrow> bool" where
  "modules_at H d k = fs_existsSync H (path_join H (level H d k) ''node_modules'')"

text \<open>The patterns of a rule that are made into regular expressions.\<close>

definition rule_patterns :: "transformation \<Rightarrow> string list" where
  "rule_patterns t =
     (case when_fileName t of None \<Rightarrow> [] | Some p \<Rightarrow> if p = [] then [] else [p])
     @ (if type t = ''replace'' \<and> parameters t \<noteq> [] \<and> hd (parameters t) \<noteq> []
        then [hd (parameters t)] else [])"

text \<open>The rule declares a file-name pattern that the name of the entry does not match.\<close>

definition rule_skipped :: "host \<Rightarrow> FileInfo \<Rightarrow> transformation \<Rightarrow> bool" where
  "rule_skipped H file t =
     (case when_fileName t of
        None \<Rightarrow> False
      | Some p \<Rightarrow> p \<noteq> [] \<and> \<not> regexp_test H p (getName file))"

text \<open>The insertion text after one rule: a \<open>replace\<close> rule that is not skipped and has a
  pattern replaces the first match of its pattern.\<close>

definition rule_result :: "host \<Rightarrow> FileInfo \<Rightarrow> string \<Rightarrow> transformation \<Rightarrow> string" where
  "rule_result H file text t =
     (if rule_skipped H file t then text
      else if type t = ''replace'' \<and> parameters t \<noteq> [] \<and> hd (parameters t) \<noteq> []
        then regexp_replace H text (hd (parameters t))
               (if 1 < length (parameters t) then parameters t ! 1 else ''undefined'')
      else text)"

section \<open>Examples: configurations, file systems and a request\<close>

text \<open>A configuration with three mappings, the last one the catch-all \<open>$root\<close>.\<close>

definition example_config :: config where
  "example_config =
     \<lparr>homeDirectory = ''/home/u'', workspaceRootPath = ''/ws'', workspaceFolderPath = ''/ws/pkg'',
      pathMappings = [(''lib'', ''${home}/lib''), (''@app'', ''${workspace}/src''),
                      (''$root'', ''${folder}'')],
      transformations = [], excludedItems = None, withExtension = False,
      triggerOutsideStrings = False, enableFolderTrailingSlash = False\<rparr>"

text \<open>A workspace with several folders: the workspace root path and the path of the folder
  of the active file differ.\<close>

definition multi_root_config :: config where
  "multi_root_config =
     \<lparr>homeDirectory = ''/home/u'', workspaceRootPath = ''/ws'', workspaceFolderPath = ''/ws/pkg'',
      pathMappings = [(''@app'', ''${workspace}/src'')],
      transformations = [], excludedItems = None, withExtension = False,
      triggerOutsideStrings = False, enableFolderTrailingSlash = False\<rparr>"

text \<open>A file system in which \<open>/ws/pkg\<close> holds a \<open>node_modules\<close> directory.\<close>

definition package_host :: host where
  "package_host =
     posix_host ''/home/u'' [''/ws/pkg/node_modules'', ''/ws/pkg/src'', ''/ws/pkg'', ''/ws'']
       (\<lambda>p. Inr []) (\<lambda>p. None)"

text \<open>A file system in which nothing exists.\<close>

definition empty_host :: host where
  "empty_host = posix_host ''/home/u'' [] (\<lambda>p. Inr []) (\<lambda>p. None)"

text \<open>Three rules: drop \<open>.spec\<close> in the names that contain \<open>.ts\<close>, turn an underscore into a
  hyphen, and a rule for the names that contain \<open>.js\<close>.\<close>

definition rename_config :: config where
  "rename_config =
     \<lparr>homeDirectory = ''/home/u'', workspaceRootPath = ''/ws'', workspaceFolderPath = ''/ws/pkg'',
      pathMappings = [],
      transformations =
        [\<lparr>type = ''replace'', parameters = [''.spec'', ''''], when_fileName = Some ''.ts''\<rparr>,
         \<lparr>type = ''replace'', parameters = [''_'', ''-''], when_fileName = None\<rparr>,
         \<lparr>type = ''replace'', parameters = [''file'', ''FILE''], when_fileName = Some ''.js''\<rparr>],
      excludedItems = None, withExtension = False,
      triggerOutsideStrings = False, enableFolderTrailingSlash = False\<rparr>"

text \<open>Two entries that are files.\<close>

definition spec_file :: FileInfo where
  "spec_file = \<lparr>getName = ''my_file_x.spec.ts'', getPath = ''/ws/pkg/src/my_file_x.spec.ts'',
                 isDirectory = False\<rparr>"

definition index_file :: FileInfo where
  "index_file = \<lparr>getName = ''index.ts'', getPath = ''/ws/pkg/src/index.ts'',
                  isDirectory = False\<rparr>"

text \<open>A file system in which \<open>/ws/pkg/src/lib\<close> holds the file \<open>a.ts\<close>, the directory \<open>sub\<close> and
  an entry \<open>gone\<close> that cannot be inspected.\<close>

definition listing_host :: host where
  "listing_host =
     posix_host ''/home/u'' [''/ws/pkg/src/lib'', ''/ws/pkg/src'', ''/ws/pkg'', ''/ws'']
       (\<lambda>p. if p = ''/ws/pkg/src/lib'' then Inr [''a.ts'', ''gone'', ''sub'']
            else Inl (FsError ''ENOTDIR''))
       (\<lambda>p. if p = ''/ws/pkg/src/lib/a.ts''
              then Some \<lparr>getName = ''a.ts'', getPath = p, isDirectory = False\<rparr>
            else if p = ''/ws/pkg/src/lib/sub''
              then Some \<lparr>getName = ''sub'', getPath = p, isDirectory = True\<rparr>
            else None)"

text \<open>A file system in which \<open>/ws/pkg/src/lib\<close> is a directory that cannot be read.\<close>

definition locked_host :: host where
  "locked_host =
     posix_host ''/home/u'' [''/ws/pkg/src/lib'', ''/ws/pkg/src'', ''/ws/pkg'', ''/ws'']
       (\<lambda>p. Inl (FsError ''EACCES'')) (\<lambda>p. None)"

text \<open>The request: the active file \<open>/ws/pkg/src/a.ts\<close>, the line \<open>"./lib"\<close> and the cursor
  before the closing quote.\<close>

definition lib_document :: document where
  "lib_document = \<lparr>fileName = ''/ws/pkg/src/a.ts'', lineAt = (\<lambda>n. ''\"./lib\"'')\<rparr>"

definition lib_position :: position where
  "lib_position = \<lparr>line = 0, character = 6\<rparr>"

text \<open>A home directory whose name holds two dollar signs.\<close>

definition dollar_home_config :: config where
  "dollar_home_config =
     \<lparr>homeDirectory = ''/home/a$$b'', workspaceRootPath = [], workspaceFolderPath = [],
      pathMappings = [(''~lib'', ''${home}/lib'')],
      transformations = [], excludedItems = None, withExtension = False,
      triggerOutsideStrings = False, enableFolderTrailingSlash = False\<rparr>"

text \<open>A line whose string holds an apostrophe, and a line whose string ends with an escaped
  backslash.\<close>

definition apostrophe_line :: string where
  "apostrophe_line = [double_quote] @ ''it'' @ [single_quote] @ ''s'' @ [double_quote] @ '' ''"

definition drive_line :: string where
  "drive_line = [double_quote] @ ''C:'' @ [backslash, backslash, double_quote]"

section \<open>Properties\<close>

subsection \<open>Strings\<close>

lemma indexOf_Some_decomp:
  "indexOf s p = Some i \<Longrightarrow> s = take i s @ p @ drop (i + length p) s \<and> i + length p \<le> length s"
proof (induction s arbitrary: i)
  case Nil
  then show ?case by (simp split: if_splits)
next
  case (Cons c cs)
  show ?case
  proof (cases "prefix p (c # cs)")
    case True
    with Cons.prems have "i = 0" by simp
    from True obtain r where "c # cs = p @ r" by (auto simp: prefix_def)
    with \<open>i = 0\<close> show ?thesis by simp
  next
    case False
    with Cons.prems obtain j where j: "indexOf cs p = Some j" "i = Suc j" by auto
    from Cons.IH[OF j(1)] j(2) show ?thesis by simp
  qed
qed

lemma indexOf_prefix: "prefix p s \<Longrightarrow> indexOf s p = Some 0"
  by (cases s) auto

lemma indexOf_least:
  "s = a @ p @ b \<Longrightarrow> \<exists>i. indexOf s p = Some i \<and> i \<le> length a"
proof (induction a arbitrary: s)
  case Nil
  then show ?case by (simp add: indexOf_prefix)
next
  case (Cons x a)
  then show ?case by (cases "prefix p s") (auto)
qed


lemma js_replace_remove:
  "js_replace s p [] = (case indexOf s p of None \<Rightarrow> s | Some i \<Rightarrow> take i s @ drop (i + length p) s)"
  by (simp add: js_replace_def split: option.splits)

lemma first_occurrence_indexOf:
  assumes "first_occurrence s p a b"
  shows "indexOf s p = Some (length a)"
proof -
  from assms have s: "s = a @ p @ b" and least: "\<And>a' b'. s = a' @ p @ b' \<Longrightarrow> length a \<le> length a'"
    by (auto simp: first_occurrence_def)
  from indexOf_least[OF s] obtain i where i: "indexOf s p = Some i" "i \<le> length a" by blast
  from indexOf_Some_decomp[OF i(1)] have "s = take i s @ p @ drop (i + length p) s" "i + length p \<le> length s" by auto
  from least[OF this(1)] this(2) have "length a \<le> i" by simp
  with i show ?thesis by simp
qed

lemma js_replace_first_occurrence:
  "first_occurrence s p a b \<Longrightarrow> js_replace s p r = a @ getSubstitution p a b r @ b"
  by (frule first_occurrence_indexOf) (simp add: js_replace_def first_occurrence_def)


subsection \<open>applyMapping\<close>





subsection \<open>shouldProvide\<close>

lemma unescaped_before_Suc:
  "unescaped_before s q (Suc n) =
     (if unescaped_at s q n then Suc (unescaped_before s q n) else unescaped_before s q n)"
proof -
  have "{i. i < Suc n \<and> unescaped_at s q i} =
      (if unescaped_at s q n then insert n {i. i < n \<and> unescaped_at s q i}
       else {i. i < n \<and> unescaped_at s q i})"
    by (auto simp: less_Suc_eq)
  then show ?thesis by (simp add: unescaped_before_def)
qed

lemma unescaped_before_0 [simp]: "unescaped_before s q 0 = 0"
  by (simp add: unescaped_before_def)

lemma charAt_int: "charAt s (int i) = (if i < length s then [s ! i] else [])"
  by (simp add: charAt_def)

lemma charAt_pred: "charAt s (int i - 1) = (if i = 0 then [] else charAt s (int (i - 1)))"
proof (cases i)
  case 0
  then show ?thesis by (simp add: charAt_def)
next
  case (Suc n)
  then have "int i - 1 = int n" by simp
  with Suc show ?thesis by simp
qed

lemma charAt_test:
  "(charAt s (int i) = [q] \<and> charAt s (int i - 1) \<noteq> [backslash]) = unescaped_at s q i"
proof -
  have a: "charAt s (int i) = [q] \<longleftrightarrow> i < length s \<and> s ! i = q"
    unfolding charAt_int by simp
  have b: "charAt s (int i - 1) \<noteq> [backslash] \<longleftrightarrow>
      i = 0 \<or> \<not> (i - 1 < length s \<and> s ! (i - 1) = backslash)"
    unfolding charAt_pred charAt_int by simp
  show ?thesis unfolding a b unescaped_at_def by auto
qed

lemma toggle_parity: "toggle (int (n mod 2)) = int (Suc n mod 2)"
  by (simp add: toggle_def mod_Suc)

lemma count_quotes_parity:
  assumes "single q = int (unescaped_before s single_quote n mod 2)"
    and "double q = int (unescaped_before s double_quote n mod 2)"
    and "backtick q = int (unescaped_before s backtick_quote n mod 2)"
  shows "single (count_quotes s n q) = int (unescaped_before s single_quote (Suc n) mod 2)
    \<and> double (count_quotes s n q) = int (unescaped_before s double_quote (Suc n) mod 2)
    \<and> backtick (count_quotes s n q) = int (unescaped_before s backtick_quote (Suc n) mod 2)"
  using assms
  by (simp add: count_quotes_def charAt_test Let_def unescaped_before_Suc toggle_parity)

lemma fold_count_quotes:
  "single (fold (count_quotes s) [0 ..< n] \<lparr>single = 0, double = 0, backtick = 0\<rparr>)
     = int (unescaped_before s single_quote n mod 2)
   \<and> double (fold (count_quotes s) [0 ..< n] \<lparr>single = 0, double = 0, backtick = 0\<rparr>)
     = int (unescaped_before s double_quote n mod 2)
   \<and> backtick (fold (count_quotes s) [0 ..< n] \<lparr>single = 0, double = 0, backtick = 0\<rparr>)
     = int (unescaped_before s backtick_quote n mod 2)"
proof (induction n)
  case 0
  show ?case by simp
next
  case (Suc n)
  then show ?case using count_quotes_parity by simp
qed

lemma shouldProvide_iff:
  "shouldProvide cfg s cursor \<longleftrightarrow>
     triggerOutsideStrings cfg \<or> (\<exists>q \<in> quote_kinds. odd (unescaped_before s q cursor))"
  using fold_count_quotes [of s cursor]
  by (auto simp: shouldProvide_def Let_def quote_kinds_def odd_iff_mod_2_eq_one)

lemma inside_pair_odd:
  assumes "inside_pair s q cursor"
  shows "odd (unescaped_before s q cursor)"
proof -
  from assms obtain i j where ij: "i < cursor" "cursor \<le> j" "unescaped_at s q i"
    "even (unescaped_before s q i)" "\<forall>k. i < k \<and> k < j \<longrightarrow> \<not> unescaped_at s q k"
    by (auto simp: inside_pair_def)
  have "{k. k < cursor \<and> unescaped_at s q k} = insert i {k. k < i \<and> unescaped_at s q k}"
    using ij by (auto simp: not_less) (metis le_neq_implies_less less_le_trans not_le)
  then have "unescaped_before s q cursor = Suc (unescaped_before s q i)"
    by (simp add: unescaped_before_def)
  with ij(4) show ?thesis by simp
qed

lemma odd_has_open:
  "odd (unescaped_before s q n) \<Longrightarrow>
   \<exists>i < n. unescaped_at s q i \<and> even (unescaped_before s q i)
      \<and> (\<forall>j. i < j \<and> j < n \<longrightarrow> \<not> unescaped_at s q j)"
proof (induction n)
  case 0
  then show ?case by simp
next
  case (Suc n)
  show ?case
  proof (cases "unescaped_at s q n")
    case True
    with Suc.prems have "even (unescaped_before s q n)"
      by (simp add: unescaped_before_Suc)
    with True show ?thesis by (intro exI[of _ n]) auto
  next
    case False
    with Suc.prems have "odd (unescaped_before s q n)"
      by (simp add: unescaped_before_Suc)
    from Suc.IH[OF this] obtain i where i: "i < n" "unescaped_at s q i"
      "even (unescaped_before s q i)" "\<forall>j. i < j \<and> j < n \<longrightarrow> \<not> unescaped_at s q j"
      by blast
    with False show ?thesis
      by (intro exI[of _ i]) (auto simp: less_Suc_eq)
  qed
qed

lemma closed_before_even:
  "closed_before s q cursor \<Longrightarrow> even (unescaped_before s q cursor)"
  using odd_has_open [of s q cursor] unfolding closed_before_def by blast

text \<open>
  Claim C4, amended. \<open>shouldProvide\<close> is true exactly when \<open>triggerOutsideStrings\<close> is set
  or, for one of the three kinds of quote, the number of quotes of that kind at the indices
  below the cursor that have no backslash just before them is odd. In particular it is true
  when the cursor is inside a matched pair of such quotes (after an opening quote and not
  after the quote that closes it); and it is false when the flag is unset and each quote
  opened before the cursor is closed before it.
\<close>

theorem shouldProvide_inside_quotes:
  "(shouldProvide cfg s cursor \<longleftrightarrow>
      triggerOutsideStrings cfg \<or> (\<exists>q \<in> quote_kinds. odd (unescaped_before s q cursor)))
   \<and> ((\<exists>q \<in> quote_kinds. inside_pair s q cursor) \<longrightarrow> shouldProvide cfg s cursor)
   \<and> (\<not> triggerOutsideStrings cfg \<and> (\<forall>q \<in> quote_kinds. closed_before s q cursor) \<longrightarrow>
        \<not> shouldProvide cfg s cursor)"
  using shouldProvide_iff [of cfg s cursor] inside_pair_odd [of s _ cursor]
    closed_before_even [of s _ cursor]
  by blast

lemma chars_distinct:
  "single_quote \<noteq> double_quote" "single_quote \<noteq> backtick_quote" "double_quote \<noteq> backtick_quote"
  "double_quote \<noteq> single_quote" "backtick_quote \<noteq> single_quote" "backtick_quote \<noteq> double_quote"
  by (simp_all add: single_quote_def double_quote_def backtick_quote_def)

theorem shouldProvide_inside_quotes_witness:
  "shouldProvide example_config ''foo(\"barbaz\")'' 8
   \<and> \<not> shouldProvide example_config ''foo(\"barbaz\")'' 13
   \<and> \<not> shouldProvide example_config ''foo(\"barbaz\")'' 3"
proof -
  let ?s = "''foo(\"barbaz\")''"
  have U: "unescaped_at ?s q i \<longleftrightarrow> q = double_quote \<and> (i = 4 \<or> i = 11)"
    if "q \<in> quote_kinds" for q i
  proof -
    have "i < 13 \<Longrightarrow> i = 0 \<or> i = 1 \<or> i = 2 \<or> i = 3 \<or> i = 4 \<or> i = 5 \<or> i = 6 \<or> i = 7
        \<or> i = 8 \<or> i = 9 \<or> i = 10 \<or> i = 11 \<or> i = 12" by arith
    then show ?thesis
      using that
      by (cases "i < 13")
        (auto simp: unescaped_at_def quote_kinds_def single_quote_def double_quote_def
          backtick_quote_def backslash_def)
  qed
  have tf: "\<not> triggerOutsideStrings example_config" by (simp add: example_config_def)
  have dq: "double_quote \<in> quote_kinds" by (simp add: quote_kinds_def)
  have B: "unescaped_before ?s double_quote 4 = 0"
    by (simp add: unescaped_before_def U [OF dq])
  have "inside_pair ?s double_quote 8"
    unfolding inside_pair_def
    by (intro exI[of _ 4] exI[of _ 11]) (simp add: U [OF dq] B)
  then have a: "shouldProvide example_config ?s 8"
    using shouldProvide_inside_quotes [of example_config ?s 8]
    using dq by blast
  have "closed_before ?s q 13" if qk: "q \<in> quote_kinds" for q
    unfolding closed_before_def
  proof (intro allI impI)
    fix i assume h: "i < 13 \<and> unescaped_at ?s q i \<and> even (unescaped_before ?s q i)"
    then have q: "q = double_quote" and i: "i = 4 \<or> i = 11" by (auto simp: U [OF qk])
    have "{k. k < 11 \<and> unescaped_at ?s double_quote k} = {4}" by (auto simp: U [OF dq])
    then have "unescaped_before ?s double_quote 11 = 1" by (simp add: unescaped_before_def)
    with h q i have "i = 4" by auto
    then show "\<exists>j>i. j < 13 \<and> unescaped_at ?s q j"
      using q by (intro exI[of _ 11]) (simp add: U [OF dq])
  qed
  then have "\<forall>q \<in> quote_kinds. closed_before ?s q 13" by blast
  then have b: "\<not> shouldProvide example_config ?s 13"
    using shouldProvide_inside_quotes [of example_config ?s 13] tf by blast
  have "closed_before ?s q 3" if "q \<in> quote_kinds" for q
    unfolding closed_before_def using that by (auto simp: U)
  then have "\<forall>q \<in> quote_kinds. closed_before ?s q 3" by blast
  then have c: "\<not> shouldProvide example_config ?s 3"
    using shouldProvide_inside_quotes [of example_config ?s 3] tf by blast
  from a b c show ?thesis by simp
qed

text \<open>The claim as it was stated gives false for every cursor outside the quote pairs. After
  the string \<open>"it's"\<close> the cursor is outside the only pair, and no pair of quotes encloses
  it, yet the apostrophe leaves the count of single quotes odd; and with the flag set the
  answer is true wherever the cursor is.\<close>

lemma inside_pair_within: "inside_pair s q cursor \<Longrightarrow> cursor < length s"
  by (auto simp: inside_pair_def unescaped_at_def)

theorem shouldProvide_outside_counterexample:
  "shouldProvide example_config apostrophe_line 7
   \<and> \<not> triggerOutsideStrings example_config
   \<and> \<not> inside_pair apostrophe_line single_quote 7
   \<and> \<not> inside_pair apostrophe_line double_quote 7
   \<and> \<not> inside_pair apostrophe_line backtick_quote 7
   \<and> unescaped_before apostrophe_line double_quote 7 = 2
   \<and> shouldProvide (example_config\<lparr>triggerOutsideStrings := True\<rparr>) ''abc'' 1"
proof -
  have a: "shouldProvide example_config apostrophe_line 7" by code_simp
  have b: "\<not> triggerOutsideStrings example_config" by (simp add: example_config_def)
  have l: "length apostrophe_line = 7" by (simp add: apostrophe_line_def)
  have c: "\<not> inside_pair apostrophe_line q 7" for q
    using inside_pair_within [of apostrophe_line q 7] l by auto
  have d: "unescaped_before apostrophe_line double_quote 7 = 2"
    by (simp add: eval_nat_numeral unescaped_before_Suc unescaped_at_def apostrophe_line_def
        double_quote_def single_quote_def backslash_def)
  have e: "shouldProvide (example_config\<lparr>triggerOutsideStrings := True\<rparr>) ''abc'' 1"
    by (simp add: shouldProvide_def)
  from a b c d e show ?thesis by simp
qed

subsection \<open>getUserPath\<close>

lemma last_from_empty: "n \<le> i \<Longrightarrow> last_from P i n d = d"
  by (induction n) auto

lemma last_from_step:
  "last_from P i n d = last_from P (Suc i) n (if i < n \<and> P i then int i else d)"
proof (induction n)
  case 0
  show ?case by simp
next
  case (Suc n)
  consider "i < n" | "i = n" | "n < i" by linarith
  then show ?case
  proof cases
    case 1
    with Suc show ?thesis by simp
  next
    case 2
    then show ?thesis by (simp add: last_from_empty)
  next
    case 3
    then show ?thesis by (simp add: last_from_empty)
  qed
qed

lemma quote_not_separator: "is_quote c \<Longrightarrow> \<not> is_separator c"
  by (auto simp: is_quote_def is_separator_def single_quote_def double_quote_def
      backtick_quote_def tab_def)

lemma backslash_not_delimiter: "\<not> is_quote backslash" "\<not> is_separator backslash"
  by (auto simp: is_quote_def is_separator_def single_quote_def double_quote_def
      backtick_quote_def tab_def backslash_def)

lemma scan_line_last:
  "\<not> skipped s i \<Longrightarrow>
   scan_line s n i lq ls = (last_from (quote_at s) i n lq, last_from (separator_at s) i n ls)"
proof (induction s n i lq ls rule: scan_line.induct)
  case (1 s n i lq ls)
  show ?case
  proof (cases "i < n")
    case False
    then show ?thesis by (simp add: last_from_empty)
  next
    case True
    note lt = True
    show ?thesis
    proof (cases "index s i")
      case None
      then have ns: "\<not> skipped s (Suc i)" by simp
      have q: "\<not> quote_at s i" "\<not> separator_at s i"
        using None by (simp_all add: quote_at_def separator_at_def)
      from "1.IH"(1)[OF lt None] ns
      have "scan_line s n (i + 1) lq ls =
          (last_from (quote_at s) (Suc i) n lq, last_from (separator_at s) (Suc i) n ls)"
        by simp
      moreover have "scan_line s n i lq ls = scan_line s n (i + 1) lq ls"
        using lt None by (subst scan_line.simps) simp
      ultimately show ?thesis
        using q by (simp add: last_from_step [of _ i])
    next
      case (Some c)
      show ?thesis
      proof (cases "c = backslash")
        case True
        have sk: "skipped s (Suc i)" using Some True "1.prems" by simp
        then have ns: "\<not> skipped s (Suc (Suc i))" by simp
        have q: "\<not> quote_at s i" "\<not> separator_at s i"
          "\<not> quote_at s (Suc i)" "\<not> separator_at s (Suc i)"
          using Some True sk backslash_not_delimiter
          by (simp_all add: quote_at_def separator_at_def)
        from "1.IH"(2)[OF lt Some True] ns
        have "scan_line s n (i + 2) lq ls =
            (last_from (quote_at s) (Suc (Suc i)) n lq,
             last_from (separator_at s) (Suc (Suc i)) n ls)"
          by simp
        moreover have "scan_line s n i lq ls = scan_line s n (i + 2) lq ls"
          using lt Some True by (subst scan_line.simps) simp
        ultimately show ?thesis
          using q by (simp add: last_from_step [of _ i] last_from_step [of _ "Suc i"])
      next
        case False
        note nb = False
        then have ns: "\<not> skipped s (Suc i)" using Some by simp
        show ?thesis
        proof (cases "is_separator c")
          case True
          have q: "\<not> quote_at s i" "separator_at s i"
            using Some True "1.prems" quote_not_separator
            by (auto simp: quote_at_def separator_at_def)
          from "1.IH"(3)[OF lt Some nb True] ns
          have "scan_line s n (i + 1) lq (int i) =
              (last_from (quote_at s) (Suc i) n lq,
               last_from (separator_at s) (Suc i) n (int i))"
            by simp
          moreover have "scan_line s n i lq ls = scan_line s n (i + 1) lq (int i)"
            using lt Some nb True by (subst scan_line.simps) simp
          ultimately show ?thesis
            using q lt by (simp add: last_from_step [of _ i])
        next
          case False
          note nsep = False
          show ?thesis
          proof (cases "is_quote c")
            case True
            have q: "quote_at s i" "\<not> separator_at s i"
              using Some True nsep "1.prems"
              by (auto simp: quote_at_def separator_at_def)
            from "1.IH"(4)[OF lt Some nb nsep True] ns
            have "scan_line s n (i + 1) (int i) ls =
                (last_from (quote_at s) (Suc i) n (int i),
                 last_from (separator_at s) (Suc i) n ls)"
              by simp
            moreover have "scan_line s n i lq ls = scan_line s n (i + 1) (int i) ls"
              using lt Some nb nsep True by (subst scan_line.simps) simp
            ultimately show ?thesis
              using q lt by (simp add: last_from_step [of _ i])
          next
            case False
            have q: "\<not> quote_at s i" "\<not> separator_at s i"
              using Some False nsep
              by (auto simp: quote_at_def separator_at_def)
            from "1.IH"(5)[OF lt Some nb nsep False] ns
            have "scan_line s n (i + 1) lq ls =
                (last_from (quote_at s) (Suc i) n lq,
                 last_from (separator_at s) (Suc i) n ls)"
              by simp
            moreover have "scan_line s n i lq ls = scan_line s n (i + 1) lq ls"
              using lt Some nb nsep False by (subst scan_line.simps) simp
            ultimately show ?thesis
              using q by (simp add: last_from_step [of _ i])
          qed
        qed
      qed
    qed
  qed
qed

lemma last_from_0:
  "(\<exists>i. is_last P n i \<and> last_from P 0 n (- 1) = int i)
   \<or> ((\<forall>i<n. \<not> P i) \<and> last_from P 0 n (- 1) = - 1)"
proof (induction n)
  case 0
  show ?case by simp
next
  case (Suc n)
  show ?case
  proof (cases "P n")
    case True
    then have "is_last P (Suc n) n" by (auto simp: is_last_def)
    with True show ?thesis by auto
  next
    case False
    from Suc show ?thesis
    proof
      assume "\<exists>i. is_last P n i \<and> last_from P 0 n (- 1) = int i"
      then obtain i where "is_last P n i" "last_from P 0 n (- 1) = int i" by blast
      with False have "is_last P (Suc n) i \<and> last_from P 0 (Suc n) (- 1) = int i"
        by (auto simp: is_last_def less_Suc_eq)
      then show ?thesis by blast
    next
      assume "(\<forall>i<n. \<not> P i) \<and> last_from P 0 n (- 1) = - 1"
      with False show ?thesis by (auto simp: less_Suc_eq)
    qed
  qed
qed

lemma substring_take_drop:
  "- 1 \<le> a \<Longrightarrow> a < int n \<Longrightarrow> substring s (a + 1) (int n) = drop (nat (a + 1)) (take n s)"
  by (auto simp: substring_def Let_def min_def max_def drop_take nat_diff_distrib
      intro!: arg_cong2 [where f = take])

text \<open>An escaped space does not start the fragment; a quote after an escaped backslash
  does.\<close>

lemma getUserPath_escaped_space: "getUserPath (''a'' @ [backslash] @ '' b'') 4 = ''a'' @ [backslash] @ '' b''"
  by code_simp

lemma getUserPath_escaped_backslash: "getUserPath ([backslash, backslash, double_quote] @ ''abc'') 6 = ''abc''"
  by code_simp

text \<open>
  Claim C5, amended. \<open>getUserPath\<close> returns the text of the line from \<open>start + 1\<close> to the
  cursor, where \<open>start\<close> is the index of the last unescaped quote below the cursor if there
  is one (whatever separators follow it), else the index of the last unescaped separator
  below the cursor, else \<open>-1\<close>. A character is escaped, and is never the start, when the scan
  skips it: it stands just after a backslash that the scan did not skip. On
  \<open>import "./src/"\<close> with the cursor before the closing quote the fragment is \<open>./src/\<close>.
\<close>

theorem getUserPath_fragment:
  "(\<exists>start. getUserPath s cursor = drop (nat (start + 1)) (take cursor s)
      \<and> ((\<exists>i. is_last (quote_at s) cursor i \<and> start = int i)
         \<or> ((\<forall>i<cursor. \<not> quote_at s i)
             \<and> (\<exists>i. is_last (separator_at s) cursor i \<and> start = int i))
         \<or> ((\<forall>i<cursor. \<not> quote_at s i) \<and> (\<forall>i<cursor. \<not> separator_at s i)
             \<and> start = - 1))
      \<and> (\<forall>i. skipped s i \<longrightarrow> start \<noteq> int i))
   \<and> getUserPath ''import \"./src/\"'' 14 = ''./src/''"
proof (intro conjI)
  let ?lq = "last_from (quote_at s) 0 cursor (- 1)"
  let ?ls = "last_from (separator_at s) 0 cursor (- 1)"
  let ?start = "if ?lq \<noteq> - 1 then ?lq else ?ls"
  have scan: "scan_line s cursor 0 (- 1) (- 1) = (?lq, ?ls)"
    by (rule scan_line_last) simp
  have q: "(\<exists>i. is_last (quote_at s) cursor i \<and> ?lq = int i)
      \<or> ((\<forall>i<cursor. \<not> quote_at s i) \<and> ?lq = - 1)"
    by (rule last_from_0)
  have p: "(\<exists>i. is_last (separator_at s) cursor i \<and> ?ls = int i)
      \<or> ((\<forall>i<cursor. \<not> separator_at s i) \<and> ?ls = - 1)"
    by (rule last_from_0)
  have bounds: "- 1 \<le> ?start" "?start < int cursor"
    using q p by (auto simp: is_last_def)
  have g: "getUserPath s cursor = drop (nat (?start + 1)) (take cursor s)"
    unfolding getUserPath_def scan
    using substring_take_drop [OF bounds, of s] by (simp add: Let_def)
  have c: "(\<exists>i. is_last (quote_at s) cursor i \<and> ?start = int i)
         \<or> ((\<forall>i<cursor. \<not> quote_at s i)
             \<and> (\<exists>i. is_last (separator_at s) cursor i \<and> ?start = int i))
         \<or> ((\<forall>i<cursor. \<not> quote_at s i) \<and> (\<forall>i<cursor. \<not> separator_at s i)
             \<and> ?start = - 1)"
    using q p by auto
  have d: "\<forall>i. skipped s i \<longrightarrow> ?start \<noteq> int i"
    using c by (auto simp: is_last_def quote_at_def separator_at_def)
  from g c d
  show "\<exists>start. getUserPath s cursor = drop (nat (start + 1)) (take cursor s)
      \<and> ((\<exists>i. is_last (quote_at s) cursor i \<and> start = int i)
         \<or> ((\<forall>i<cursor. \<not> quote_at s i)
             \<and> (\<exists>i. is_last (separator_at s) cursor i \<and> start = int i))
         \<or> ((\<forall>i<cursor. \<not> quote_at s i) \<and> (\<forall>i<cursor. \<not> separator_at s i)
             \<and> start = - 1))
      \<and> (\<forall>i. skipped s i \<longrightarrow> start \<noteq> int i)"
    by (intro exI [of _ ?start] conjI)
  show "getUserPath ''import \"./src/\"'' 14 = ''./src/''"
    by code_simp
qed

theorem getUserPath_fragment_witness:
  "(\<exists>start. getUserPath ''import \"./src/\"'' 14 = drop (nat (start + 1)) (take 14 ''import \"./src/\"'')
      \<and> is_last (quote_at ''import \"./src/\"'') 14 (nat start))
   \<and> separator_at ''import \"./src/\"'' 6
   \<and> getUserPath ''import \"./src/\"'' 14 = ''./src/''"
proof -
  let ?s = "''import \"./src/\"''"
  have q: "quote_at ?s 7" by code_simp
  have p: "separator_at ?s 6" by code_simp
  from getUserPath_fragment [of ?s 14]
  obtain start where g: "getUserPath ?s 14 = drop (nat (start + 1)) (take 14 ?s)"
    and c: "(\<exists>i. is_last (quote_at ?s) 14 i \<and> start = int i)
         \<or> ((\<forall>i<14. \<not> quote_at ?s i)
             \<and> (\<exists>i. is_last (separator_at ?s) 14 i \<and> start = int i))
         \<or> ((\<forall>i<14. \<not> quote_at ?s i) \<and> (\<forall>i<14. \<not> separator_at ?s i)
             \<and> start = - 1)"
    and e: "getUserPath ?s 14 = ''./src/''"
    by blast
  have "(7::nat) < 14" by simp
  with q have "\<not> (\<forall>i<14. \<not> quote_at ?s i)" by blast
  with c obtain i where "is_last (quote_at ?s) 14 i" "start = int i" by blast
  then have "is_last (quote_at ?s) 14 (nat start)" by simp
  with g p e show ?thesis by blast
qed

text \<open>The claim as it was stated has every character just after a backslash skipped. In
  \<open>"C:\\"\<close> the closing quote stands just after the second backslash, which the scan skipped
  as the escaped one: the quote is read, and it is the start of the (empty) fragment, where
  the claim has the fragment start after the opening quote.\<close>

theorem getUserPath_backslash_counterexample:
  "index drive_line 4 = Some backslash
   \<and> index drive_line 5 = Some double_quote
   \<and> getUserPath drive_line 6 = substring drive_line (5 + 1) 6
   \<and> getUserPath drive_line 6 = []
   \<and> substring drive_line (0 + 1) 6 = ''C:'' @ [backslash, backslash, double_quote]"
  by code_simp

subsection \<open>getNodeModulesPath\<close>

lemma level_0 [simp]: "level H d 0 = d"
  by (simp add: level_def)

lemma level_Suc: "level H d (Suc k) = level H (path_dirname H d) k"
  by (simp add: level_def funpow_swap1)

lemma reaches_root_0: "reaches_root H d 0 \<longleftrightarrow> d = path_dirname H d"
  by (simp add: reaches_root_def)

lemma reaches_root_Suc:
  "reaches_root H d (Suc n) \<longleftrightarrow> d \<noteq> path_dirname H d \<and> reaches_root H (path_dirname H d) n"
proof -
  have "(\<forall>k<Suc n. P k) \<longleftrightarrow> P 0 \<and> (\<forall>k<n. P (Suc k))" for P
    by (metis less_Suc_eq_0_disj Suc_less_eq zero_less_Suc)
  then show ?thesis
    by (simp add: reaches_root_def level_Suc)
qed

lemma getNodeModulesPath_walk:
  "reaches_root H d n \<Longrightarrow>
   getNodeModulesPath H cfg d =
     (if \<exists>k<n. modules_at H d k
      then Some (path_join H (level H d (LEAST k. modules_at H d k)) ''node_modules'')
      else Some (path_join H (workspaceFolderPath cfg) ''node_modules''))"
proof (induction n arbitrary: d)
  case 0
  then show ?case
    by (subst getNodeModulesPath.simps) (simp add: reaches_root_0)
next
  case (Suc n)
  then have ne: "d \<noteq> path_dirname H d" and r: "reaches_root H (path_dirname H d) n"
    by (simp_all add: reaches_root_Suc)
  show ?case
  proof (cases "modules_at H d 0")
    case True
    then have "(LEAST k. modules_at H d k) = 0" by (simp add: Least_eq_0)
    moreover have "\<exists>k<Suc n. modules_at H d k" using True by blast
    moreover have "getNodeModulesPath H cfg d = Some (path_join H d ''node_modules'')"
      using ne True by (subst getNodeModulesPath.simps) (simp add: modules_at_def)
    ultimately show ?thesis by simp
  next
    case False
    have shift: "modules_at H d (Suc k) = modules_at H (path_dirname H d) k" for k
      by (simp add: modules_at_def level_Suc)
    have ex: "(\<exists>k<Suc n. modules_at H d k) \<longleftrightarrow> (\<exists>k<n. modules_at H (path_dirname H d) k)"
    proof
      assume "\<exists>k<Suc n. modules_at H d k"
      then obtain k where k: "k < Suc n" "modules_at H d k" by blast
      with False obtain j where "k = Suc j" by (cases k) auto
      with k shift show "\<exists>k<n. modules_at H (path_dirname H d) k" by auto
    next
      assume "\<exists>k<n. modules_at H (path_dirname H d) k"
      then obtain k where "k < n" "modules_at H (path_dirname H d) k" by blast
      then have "Suc k < Suc n \<and> modules_at H d (Suc k)" by (simp add: shift)
      then show "\<exists>k<Suc n. modules_at H d k" by blast
    qed
    have least: "(LEAST k. modules_at H d k) = Suc (LEAST k. modules_at H (path_dirname H d) k)"
      if "\<exists>k. modules_at H (path_dirname H d) k"
    proof -
      from that obtain k where "modules_at H d (Suc k)" by (auto simp: shift)
      from Least_Suc [OF this False] show ?thesis by (simp add: shift)
    qed
    have "getNodeModulesPath H cfg d = getNodeModulesPath H cfg (path_dirname H d)"
      using ne False by (subst getNodeModulesPath.simps) (simp add: modules_at_def)
    also note Suc.IH [OF r]
    finally have g: "getNodeModulesPath H cfg d =
        (if \<exists>k<n. modules_at H (path_dirname H d) k
         then Some (path_join H (level H (path_dirname H d)
                (LEAST k. modules_at H (path_dirname H d) k)) ''node_modules'')
         else Some (path_join H (workspaceFolderPath cfg) ''node_modules''))" .
    show ?thesis
    proof (cases "\<exists>k<n. modules_at H (path_dirname H d) k")
      case True
      then have "\<exists>k. modules_at H (path_dirname H d) k" by blast
      from least [OF this] True ex g show ?thesis by (simp add: level_Suc)
    next
      case False
      with ex have ne: "(\<exists>k<Suc n. modules_at H d k) = False" by simp
      show ?thesis unfolding ne using g False by simp
    qed
  qed
qed

text \<open>On POSIX paths the parent steps reach such a directory from every directory: the
  parent of a path is \<open>/\<close>, \<open>.\<close>, \<open>//\<close> or a shorter path.\<close>

lemma upto_last_slash_length: "length (upto_last_slash p) \<le> length p"
proof -
  have "length (upto_last_slash p) \<le> length (strip_slashes p)"
    unfolding upto_last_slash_def
    using length_dropWhile_le [of "\<lambda>c. c \<noteq> slash" "rev (strip_slashes p)"] by simp
  also have "\<dots> \<le> length p"
    unfolding strip_slashes_def
    using length_dropWhile_le [of "\<lambda>c. c = slash" "rev p"] by simp
  finally show ?thesis .
qed

lemma posix_dirname_fixed:
  "posix_dirname ''/'' = ''/''" "posix_dirname ''.'' = ''.''" "posix_dirname ''//'' = ''/''"
  by code_simp+

lemma posix_dirname_cases:
  "posix_dirname p = ''/'' \<or> posix_dirname p = ''.'' \<or> posix_dirname p = ''//''
   \<or> length (posix_dirname p) < length p"
proof -
  have "length (butlast (upto_last_slash p)) < length p" if "1 < length (upto_last_slash p)"
    using that upto_last_slash_length [of p] by simp
  then show ?thesis
    by (auto simp: posix_dirname_def)
qed

lemma reaches_root_step:
  "reaches_root H (path_dirname H d) n \<Longrightarrow> \<exists>m. reaches_root H d m"
proof (cases "d = path_dirname H d")
  case True
  then have "reaches_root H d 0" by (simp add: reaches_root_0)
  then show ?thesis ..
next
  case False
  assume "reaches_root H (path_dirname H d) n"
  with False have "reaches_root H d (Suc n)" by (simp add: reaches_root_Suc)
  then show ?thesis ..
qed

lemma posix_reaches_root:
  assumes H: "path_dirname H = posix_dirname"
  shows "\<exists>n. reaches_root H d n"
proof (induction d rule: length_induct)
  case (1 d)
  have "reaches_root H ''/'' 0" "reaches_root H ''.'' 0"
    by (simp_all add: reaches_root_0 H posix_dirname_fixed)
  then have root: "\<exists>n. reaches_root H ''/'' n" "\<exists>n. reaches_root H ''.'' n"
    by blast+
  have "reaches_root H (path_dirname H ''//'') 0"
    by (simp add: reaches_root_0 H posix_dirname_fixed)
  then have root2: "\<exists>n. reaches_root H ''//'' n"
    by (rule reaches_root_step)
  from posix_dirname_cases [of d]
  have "\<exists>n. reaches_root H (path_dirname H d) n"
    using root root2 1 by (auto simp: H)
  then show ?case using reaches_root_step by blast
qed

lemma getNodeModulesPath_returns:
  "reaches_root H d n \<Longrightarrow> \<exists>modules. getNodeModulesPath H cfg d = Some modules"
  by (simp add: getNodeModulesPath_walk)

text \<open>
  Claim C7, amended. From a directory from which the parent steps reach a directory that
  the parent step does not change, \<open>getNodeModulesPath\<close> returns the \<open>node_modules\<close> path of
  the first level, below that directory, at which such a path exists; when there is none it
  returns the workspace folder path (not the workspace root path) joined with
  \<open>node_modules\<close>. On POSIX paths this covers every starting directory, and the function
  returns for each.
\<close>

theorem getNodeModulesPath_nearest:
  "(reaches_root H d n \<longrightarrow>
     (\<forall>k<n. modules_at H d k \<and> (\<forall>j<k. \<not> modules_at H d j) \<longrightarrow>
        getNodeModulesPath H cfg d = Some (path_join H (level H d k) ''node_modules''))
     \<and> ((\<forall>k<n. \<not> modules_at H d k) \<longrightarrow>
        getNodeModulesPath H cfg d = Some (path_join H (workspaceFolderPath cfg) ''node_modules'')))
   \<and> (path_dirname H = posix_dirname \<longrightarrow>
        (\<exists>n. reaches_root H d n) \<and> (\<exists>modules. getNodeModulesPath H cfg d = Some modules))"
proof (intro impI conjI allI)
  fix k
  assume r: "reaches_root H d n" and k: "k < n"
    and f: "modules_at H d k \<and> (\<forall>j<k. \<not> modules_at H d j)"
  then have "(LEAST k. modules_at H d k) = k"
    by (intro Least_equality) (auto simp: not_less [symmetric])
  with getNodeModulesPath_walk [OF r, of cfg] k f
  show "getNodeModulesPath H cfg d = Some (path_join H (level H d k) ''node_modules'')"
    by auto
next
  assume r: "reaches_root H d n" and "\<forall>k<n. \<not> modules_at H d k"
  with getNodeModulesPath_walk [OF r, of cfg]
  show "getNodeModulesPath H cfg d = Some (path_join H (workspaceFolderPath cfg) ''node_modules'')"
    by auto
next
  assume "path_dirname H = posix_dirname"
  then show "\<exists>n. reaches_root H d n" by (rule posix_reaches_root)
next
  assume "path_dirname H = posix_dirname"
  then obtain n where "reaches_root H d n" using posix_reaches_root by blast
  then show "\<exists>modules. getNodeModulesPath H cfg d = Some modules"
    by (rule getNodeModulesPath_returns)
qed

lemma posix_host_simps:
  "path_resolve (posix_host cwd dirs rd info) = posix_resolve cwd"
  "path_join (posix_host cwd dirs rd info) = posix_join"
  "path_dirname (posix_host cwd dirs rd info) = posix_dirname"
  "path_parse_dir (posix_host cwd dirs rd info) = posix_parse_dir"
  "path_basename (posix_host cwd dirs rd info) = posix_basename"
  "path_basename_ext (posix_host cwd dirs rd info) = posix_basename_ext"
  "path_extname (posix_host cwd dirs rd info) = posix_extname"
  "fs_existsSync (posix_host cwd dirs rd info) p = (p \<in> set dirs)"
  "fs_lstat_isDirectory (posix_host cwd dirs rd info) p = (p \<in> set dirs)"
  "fs_readdir (posix_host cwd dirs rd info) = rd"
  "newFileInfo (posix_host cwd dirs rd info) = info"
  by (simp_all add: posix_host_def)

lemma package_host_simps:
  "path_join package_host = posix_join"
  "path_dirname package_host = posix_dirname"
  "fs_existsSync package_host p =
     (p \<in> set [''/ws/pkg/node_modules'', ''/ws/pkg/src'', ''/ws/pkg'', ''/ws''])"
  by (simp_all add: package_host_def posix_host_simps)

lemma empty_host_simps:
  "path_join empty_host = posix_join"
  "path_dirname empty_host = posix_dirname"
  "path_resolve empty_host = posix_resolve ''/home/u''"
  "path_parse_dir empty_host = posix_parse_dir"
  "fs_existsSync empty_host p = False"
  by (simp_all add: empty_host_def posix_host_simps)

lemma dirname_examples:
  "posix_dirname ''/ws/pkg/src'' = ''/ws/pkg''"
  "posix_dirname ''/ws/pkg'' = ''/ws''"
  "posix_dirname ''/ws'' = ''/''"
  "posix_dirname ''/'' = ''/''"
  by code_simp+

lemma join_examples:
  "posix_join ''/ws/pkg/src'' ''node_modules'' = ''/ws/pkg/src/node_modules''"
  "posix_join ''/ws/pkg'' ''node_modules'' = ''/ws/pkg/node_modules''"
  "posix_join ''/ws'' ''node_modules'' = ''/ws/node_modules''"
  by code_simp+

theorem getNodeModulesPath_nearest_witness:
  "getNodeModulesPath package_host multi_root_config ''/ws/pkg/src'' = Some ''/ws/pkg/node_modules''
   \<and> getNodeModulesPath empty_host multi_root_config ''/ws'' = Some ''/ws/pkg/node_modules''"
proof -
  have l: "level H ''/ws/pkg/src'' (Suc 0) = ''/ws/pkg''" "level H ''/ws/pkg/src'' 2 = ''/ws''"
    "level H ''/ws/pkg/src'' 3 = ''/''" "level H ''/ws'' (Suc 0) = ''/''"
    if "path_dirname H = posix_dirname" for H
    using that by (simp_all add: level_def eval_nat_numeral dirname_examples)
  note lp = l [OF package_host_simps(2)] and le = l [OF empty_host_simps(2)]
  have all3: "(\<forall>k<3. P k) \<longleftrightarrow> P 0 \<and> P (Suc 0) \<and> P (2::nat)" for P
    by (auto simp: eval_nat_numeral less_Suc_eq)
  have all1: "(\<forall>k<Suc 0. P k) \<longleftrightarrow> P (0::nat)" for P
    by auto
  have r1: "reaches_root package_host ''/ws/pkg/src'' 3"
    unfolding reaches_root_def all3 by (simp add: lp package_host_simps dirname_examples)
  have m0: "\<not> modules_at package_host ''/ws/pkg/src'' 0"
    by (simp add: modules_at_def package_host_simps join_examples)
  have m1: "modules_at package_host ''/ws/pkg/src'' (Suc 0)"
    by (simp add: modules_at_def lp package_host_simps join_examples)
  have a: "getNodeModulesPath package_host multi_root_config ''/ws/pkg/src'' = Some ''/ws/pkg/node_modules''"
    using getNodeModulesPath_nearest [of package_host "''/ws/pkg/src''" 3 multi_root_config] r1 m0 m1
    by (simp add: all3 all1 lp package_host_simps join_examples)
  have r2: "reaches_root empty_host ''/ws'' (Suc 0)"
    unfolding reaches_root_def all1 by (simp add: le empty_host_simps dirname_examples)
  have m2: "\<not> modules_at empty_host ''/ws'' 0"
    by (simp add: modules_at_def empty_host_simps)
  have b: "getNodeModulesPath empty_host multi_root_config ''/ws'' = Some ''/ws/pkg/node_modules''"
    using getNodeModulesPath_nearest [of empty_host "''/ws''" "Suc 0" multi_root_config] r2 m2
    by (simp add: all1 empty_host_simps multi_root_config_def join_examples)
  from a b show ?thesis by simp
qed

text \<open>The claim as it was stated names the workspace root path; with a workspace root
  \<open>/ws\<close> and a workspace folder \<open>/ws/pkg\<close> the fallback is \<open>/ws/pkg/node_modules\<close>, not
  \<open>/ws/node_modules\<close>.\<close>

theorem getNodeModulesPath_root_counterexample:
  "getNodeModulesPath empty_host multi_root_config ''/ws/pkg/src'' = Some ''/ws/pkg/node_modules''
   \<and> getNodeModulesPath empty_host multi_root_config ''/ws/pkg/src''
       \<noteq> Some (path_join empty_host (workspaceRootPath multi_root_config) ''node_modules'')"
  by (simp add: getNodeModulesPath.simps empty_host_simps multi_root_config_def
      dirname_examples join_examples)

subsection \<open>getCurrentDirectory and getFolderPath\<close>

lemma startsWith_char: "startsWith s [c] \<longleftrightarrow> (\<exists>r. s = c # r)"
  by (cases s) (auto simp: startsWith_def)

lemma applyMapping_unmapped:
  "applyMapping multi_root_config ''lib'' = \<lparr>currentDir = [], insertedPath = ''lib''\<rparr>"
  "applyMapping multi_root_config ''./x'' = \<lparr>currentDir = [], insertedPath = ''./x''\<rparr>"
  "applyMapping multi_root_config ''/x'' = \<lparr>currentDir = [], insertedPath = ''/x''\<rparr>"
  by (simp_all add: applyMapping_def multi_root_config_def mapping_applies_def startsWith_def)

lemma multi_root_config_simps:
  "homeDirectory multi_root_config = ''/home/u''"
  "workspaceRootPath multi_root_config = ''/ws''"
  "workspaceFolderPath multi_root_config = ''/ws/pkg''"
  "pathMappings multi_root_config = [(''@app'', ''${workspace}/src'')]"
  "transformations multi_root_config = []"
  "excludedItems multi_root_config = None"
  "withExtension multi_root_config = False"
  "triggerOutsideStrings multi_root_config = False"
  "enableFolderTrailingSlash multi_root_config = False"
  by (simp_all add: multi_root_config_def)

lemma parse_dir_examples:
  "posix_parse_dir ''Untitled-1'' = []"
  "posix_parse_dir ''/ws/pkg/src/a.ts'' = ''/ws/pkg/src''"
  by code_simp+

lemma resolve_examples:
  "posix_resolve ''/home/u'' [] = ''/home/u''"
  "posix_resolve ''/home/u'' ''.'' = ''/home/u''"
  "posix_resolve ''/home/u'' ''/'' = ''/''"
  "posix_resolve ''/home/u'' ''/ws/pkg'' = ''/ws/pkg''"
  "posix_resolve ''/home/u'' ''/ws/pkg/src'' = ''/ws/pkg/src''"
  by code_simp+

lemma dirname_untitled: "posix_dirname ''Untitled-1'' = ''.''"
  by code_simp

text \<open>
  Claim C6, amended. When \<open>applyMapping\<close> yields no target directory, the base directory is
  the directory part of the active file's name as \<open>path.parse\<close> gives it, or \<open>/\<close> when that
  part is empty, except that it is the workspace folder path when the mapped \<open>insertedPath\<close>
  starts with \<open>/\<close> and a workspace folder path is configured; the chosen directory is then
  resolved to absolute form.
\<close>

theorem default_directory:
  "currentDir (applyMapping cfg fragment) = [] \<longrightarrow>
     baseDirectory H cfg activeFile (applyMapping cfg fragment) =
       path_resolve H
         (if (\<exists>r. insertedPath (applyMapping cfg fragment) = CHR ''/'' # r)
              \<and> workspaceFolderPath cfg \<noteq> []
          then workspaceFolderPath cfg
          else if path_parse_dir H activeFile \<noteq> [] then path_parse_dir H activeFile
          else ''/'')"
  by (simp add: baseDirectory_def getCurrentDirectory_def Let_def startsWith_char)

theorem default_directory_witness:
  "baseDirectory empty_host multi_root_config ''/ws/pkg/src/a.ts''
      (applyMapping multi_root_config ''./x'') = ''/ws/pkg/src''
   \<and> baseDirectory empty_host multi_root_config ''/ws/pkg/src/a.ts''
      (applyMapping multi_root_config ''/x'') = ''/ws/pkg''
   \<and> baseDirectory empty_host multi_root_config ''Untitled-1''
      (applyMapping multi_root_config ''./x'') = ''/''"
  using default_directory [of multi_root_config "''./x''" empty_host "''/ws/pkg/src/a.ts''"]
    default_directory [of multi_root_config "''/x''" empty_host "''/ws/pkg/src/a.ts''"]
    default_directory [of multi_root_config "''./x''" empty_host "''Untitled-1''"]
  by (simp add: applyMapping_unmapped empty_host_simps parse_dir_examples resolve_examples
      multi_root_config_simps)

text \<open>The claim as it was stated takes the parent directory of the active file in every
  case. The name \<open>Untitled-1\<close> has no directory part: its parent directory resolves to the
  working directory, \<open>/home/u\<close> here, whereas the base directory is \<open>/\<close>.\<close>

theorem default_directory_counterexample:
  "currentDir (applyMapping multi_root_config ''lib'') = []
   \<and> baseDirectory empty_host multi_root_config ''Untitled-1''
        (applyMapping multi_root_config ''lib'') = ''/''
   \<and> path_resolve empty_host (path_parse_dir empty_host ''Untitled-1'') = ''/home/u''
   \<and> path_resolve empty_host (path_dirname empty_host ''Untitled-1'') = ''/home/u''
   \<and> baseDirectory empty_host multi_root_config ''Untitled-1''
        (applyMapping multi_root_config ''lib'')
       \<noteq> path_resolve empty_host (path_parse_dir empty_host ''Untitled-1'')"
  by (simp add: applyMapping_unmapped baseDirectory_def getCurrentDirectory_def startsWith_def
      empty_host_simps parse_dir_examples resolve_examples dirname_untitled
      multi_root_config_simps)














subsection \<open>getInsertText\<close>

lemma apply_transform_valid:
  "\<forall>p \<in> set (rule_patterns t). regexp_valid H p \<Longrightarrow>
   apply_transform H file t text = Inr (rule_result H file text t)"
proof -
  assume v: "\<forall>p \<in> set (rule_patterns t). regexp_valid H p"
  have w: "regexp_valid H p" if "when_fileName t = Some p" "p \<noteq> []" for p
    using v that by (simp add: rule_patterns_def)
  have r: "regexp_valid H (hd (parameters t))"
    if "type t = ''replace''" "parameters t \<noteq> []" "hd (parameters t) \<noteq> []"
    using v that by (simp add: rule_patterns_def)
  show ?thesis
  proof (cases "when_fileName t")
    case None
    then show ?thesis
      using r by (simp add: apply_transform_def rule_result_def rule_skipped_def Let_def)
  next
    case (Some p)
    then show ?thesis
      using r w [OF Some]
      by (cases "p = []")
        (simp_all add: apply_transform_def rule_result_def rule_skipped_def Let_def)
  qed
qed

lemma apply_transformations_valid:
  "\<forall>t \<in> set ts. \<forall>p \<in> set (rule_patterns t). regexp_valid H p \<Longrightarrow>
   apply_transformations H file ts s = Inr (foldl (rule_result H file) s ts)"
  by (induction ts arbitrary: s) (simp_all add: apply_transform_valid)

lemma index_names:
  "posix_basename ''index.ts'' = ''index.ts''"
  "posix_extname ''index.ts'' = ''.ts''"
  "posix_basename_ext ''index.ts'' ''.ts'' = ''index''"
  "posix_extname ''my_file_x.spec.ts'' = ''.ts''"
  "posix_basename_ext ''my_file_x.spec.ts'' ''.ts'' = ''my_file_x.spec''"
  by code_simp+

text \<open>
  Claim C8. When every pattern of the rules is a regular expression, \<open>getInsertText\<close> starts
  from the base name of the entry if \<open>withExtension\<close> is set or the entry is a directory, and
  from the base name without its extension otherwise, and applies the rules in their order,
  each to the text the rules before it produced: a rule that declares a file-name pattern
  which the name of the entry does not match changes nothing, and a \<open>replace\<close> rule (with a
  pattern that is not empty) replaces the first match of its pattern, and that match only.
  On POSIX paths and with no rules, the file \<open>index.ts\<close> gives \<open>index\<close> without
  \<open>withExtension\<close> and \<open>index.ts\<close> with it.
\<close>

theorem getInsertText_rules:
  "((\<forall>t \<in> set (transformations cfg). \<forall>p \<in> set (rule_patterns t). regexp_valid H p) \<longrightarrow>
      getInsertText H cfg file =
        Inr (foldl (rule_result H file)
               (if withExtension cfg \<or> isDirectory file then path_basename H (getName file)
                else path_basename_ext H (getName file) (path_extname H (getName file)))
               (transformations cfg)))
   \<and> (transformations cfg = [] \<and> getName file = ''index.ts'' \<and> \<not> isDirectory file
        \<and> path_basename H = posix_basename \<and> path_basename_ext H = posix_basename_ext
        \<and> path_extname H = posix_extname \<longrightarrow>
      getInsertText H cfg file = Inr (if withExtension cfg then ''index.ts'' else ''index''))"
  by (simp add: getInsertText_def apply_transformations_valid index_names)

lemma empty_host_regexp:
  "regexp_valid empty_host p"
  "regexp_test empty_host p s = js_includes s p"
  "regexp_replace empty_host s p r = js_replace s p r"
  "path_basename empty_host = posix_basename"
  "path_basename_ext empty_host = posix_basename_ext"
  "path_extname empty_host = posix_extname"
  by (simp_all add: empty_host_def posix_host_def)

lemma rename_steps:
  "js_includes ''my_file_x.spec.ts'' ''.ts''"
  "\<not> js_includes ''my_file_x.spec.ts'' ''.js''"
  "js_replace ''my_file_x.spec'' ''.spec'' [] = ''my_file_x''"
  "js_replace ''my_file_x'' ''_'' ''-'' = ''my-file_x''"
  by code_simp+

theorem getInsertText_rules_witness:
  "getInsertText empty_host rename_config spec_file = Inr ''my-file_x''
   \<and> getInsertText empty_host multi_root_config index_file = Inr ''index''
   \<and> getInsertText empty_host (multi_root_config\<lparr>withExtension := True\<rparr>) index_file
       = Inr ''index.ts''"
proof -
  have a: "getInsertText empty_host rename_config spec_file = Inr ''my-file_x''"
    using getInsertText_rules [of rename_config empty_host spec_file]
    by (simp add: rename_config_def spec_file_def empty_host_regexp rule_result_def
        rule_skipped_def index_names rename_steps)
  have b: "getInsertText empty_host multi_root_config index_file = Inr ''index''"
    using getInsertText_rules [of multi_root_config empty_host index_file]
    by (simp add: multi_root_config_simps index_file_def empty_host_regexp index_names)
  have c: "getInsertText empty_host (multi_root_config\<lparr>withExtension := True\<rparr>) index_file
       = Inr ''index.ts''"
    using getInsertText_rules [of "multi_root_config\<lparr>withExtension := True\<rparr>" empty_host index_file]
    by (simp add: multi_root_config_simps index_file_def empty_host_regexp index_names)
  from a b c show ?thesis by simp
qed

subsection \<open>provideCompletionItems\<close>

lemma lib_request:
  "fileName lib_document = ''/ws/pkg/src/a.ts''"
  "lineAt lib_document (line lib_position) = ''\"./lib\"''"
  "character lib_position = 6"
  by (simp_all add: lib_document_def lib_position_def)

lemma lib_folder:
  "shouldProvide multi_root_config ''\"./lib\"'' 6"
  "getFolderPath locked_host multi_root_config ''/ws/pkg/src/a.ts'' ''\"./lib\"'' 6
     = Some ''/ws/pkg/src/lib''"
  "fs_existsSync locked_host ''/ws/pkg/src/lib''"
  "fs_lstat_isDirectory locked_host ''/ws/pkg/src/lib''"
  "fs_readdir locked_host ''/ws/pkg/src/lib'' = Inl (FsError ''EACCES'')"
  by code_simp+

lemma listing_example:
  "provideCompletionItems listing_host multi_root_config lib_document lib_position
     \<lparr>isCancellationRequested = True\<rparr> =
   Some (Inr [newCompletionItem ''..'',
     \<lparr>label = ''a.ts'', insertText = Some ''a'', sortText = Some ''f'', command = None,
      kind = Some File\<rparr>,
     \<lparr>label = ''sub/'', insertText = Some ''sub'', sortText = Some ''d'', command = None,
      kind = Some File\<rparr>])"
  by code_simp

text \<open>
  Claim C1, amended. When the resolved directory exists and is a directory but reading its
  entries fails, the promise that \<open>provideCompletionItems\<close> returns is rejected with the
  error of the read: the failure reaches the caller, and no list, not even an empty one, is
  delivered.
\<close>

theorem readdir_failure_rejects:
  "shouldProvide cfg (lineAt doc (line pos)) (character pos)
   \<and> getFolderPath H cfg (fileName doc) (lineAt doc (line pos)) (character pos) = Some folderPath
   \<and> fs_existsSync H folderPath \<and> fs_lstat_isDirectory H folderPath
   \<and> fs_readdir H folderPath = Inl err
   \<longrightarrow> provideCompletionItems H cfg doc pos tok = Some (Inl err)"
  by (simp add: provideCompletionItems_def getFolderItems_def Let_def)

theorem readdir_failure_rejects_witness:
  "provideCompletionItems locked_host multi_root_config lib_document lib_position
     \<lparr>isCancellationRequested = False\<rparr> = Some (Inl (FsError ''EACCES''))"
  using readdir_failure_rejects [of multi_root_config lib_document lib_position locked_host
      "''/ws/pkg/src/lib''" "FsError ''EACCES''" "\<lparr>isCancellationRequested = False\<rparr>"]
  by (simp add: lib_request lib_folder)

text \<open>The claim as it was stated has the provider resolve with an empty list. In a
  directory that exists and cannot be read (\<open>EACCES\<close>) the outcome is the rejection.\<close>

theorem readdir_failure_counterexample:
  "provideCompletionItems locked_host multi_root_config lib_document lib_position
     \<lparr>isCancellationRequested = False\<rparr> \<noteq> Some (Inr [])
   \<and> fs_existsSync locked_host ''/ws/pkg/src/lib''
   \<and> fs_lstat_isDirectory locked_host ''/ws/pkg/src/lib''
   \<and> getFolderItems locked_host ''/ws/pkg/src/lib'' = Inl (FsError ''EACCES'')"
  by code_simp

text \<open>
  Claim C9, amended. \<open>provideCompletionItems\<close> never reads the cancellation token: its
  outcome is the same whether or not cancellation has been requested while the directory was
  being read, so the candidate list is completed and delivered after a cancellation as well.
\<close>

theorem cancellation_ignored:
  "provideCompletionItems H cfg doc pos tok = provideCompletionItems H cfg doc pos tok'"
  by (simp add: provideCompletionItems_def)

theorem cancellation_ignored_witness:
  "provideCompletionItems listing_host multi_root_config lib_document lib_position
     \<lparr>isCancellationRequested = True\<rparr>
   = provideCompletionItems listing_host multi_root_config lib_document lib_position
     \<lparr>isCancellationRequested = False\<rparr>"
  by (rule cancellation_ignored)

text \<open>The claim as it was stated has the provider return an empty outcome after a
  cancellation. With the token cancelled, a directory that holds the file \<open>a.ts\<close>, the
  directory \<open>sub\<close> and an entry that cannot be inspected still gives the full list.\<close>

theorem cancellation_counterexample:
  "provideCompletionItems listing_host multi_root_config lib_document lib_position
     \<lparr>isCancellationRequested = True\<rparr> \<noteq> Some (Inr [])
   \<and> provideCompletionItems listing_host multi_root_config lib_document lib_position
       \<lparr>isCancellationRequested = True\<rparr> =
     Some (Inr [newCompletionItem ''..'',
       \<lparr>label = ''a.ts'', insertText = Some ''a'', sortText = Some ''f'', command = None,
        kind = Some File\<rparr>,
       \<lparr>label = ''sub/'', insertText = Some ''sub'', sortText = Some ''d'', command = None,
        kind = Some File\<rparr>])"
  by (simp add: listing_example)

subsection \<open>The placeholders of a mapping\<close>

text \<open>A replacement text without a dollar sign is inserted as it is, in place of the first
  occurrence only.\<close>

lemma getSubstitution_plain: "dollar \<notin> set r \<Longrightarrow> getSubstitution m a b r = r"
  by (induction m a b r rule: getSubstitution.induct) auto

lemma js_replace_plain:
  "dollar \<notin> set r \<Longrightarrow> first_occurrence s p a b \<Longrightarrow> js_replace s p r = a @ r @ b"
  by (simp add: js_replace_first_occurrence getSubstitution_plain)

text \<open>The placeholders \<open>${workspace}\<close> and \<open>${folder}\<close> are left alone when the workspace
  root path and the workspace folder path are not configured; \<open>${home}\<close> is replaced in
  every case, once.\<close>

lemma candidatePath_unconfigured:
  "workspaceRootPath cfg = [] \<Longrightarrow> workspaceFolderPath cfg = [] \<Longrightarrow>
   candidatePath cfg template = js_replace template ''${home}'' (homeDirectory cfg)"
  by (simp add: candidatePath_def)

lemma candidatePath_once:
  "candidatePath (multi_root_config\<lparr>workspaceRootPath := []\<rparr>)
     ''${workspace}/${folder}/${folder}/${home}/${home}''
   = ''${workspace}//ws/pkg/${folder}//home/u/${home}''"
  by code_simp

text \<open>
  Claim C10. \<open>${home}\<close> is to be replaced by the configured home directory. The code passes
  the directory to \<open>String.prototype.replace\<close> as the replacement text, where \<open>$$\<close> stands
  for one dollar sign: the home directory \<open>/home/a$$b\<close> is inserted as \<open>/home/a$b\<close>.
\<close>

theorem candidatePath_dollar_expansion:
  "candidatePath dollar_home_config ''${home}/lib'' = ''/home/a$b/lib''
   \<and> candidatePath dollar_home_config ''${home}/lib'' \<noteq> homeDirectory dollar_home_config @ ''/lib''
   \<and> currentDir (applyMapping dollar_home_config ''~lib/x'') = ''/home/a$b/lib''"
  by code_simp

end
